theory Spec2Isabelle
  imports Complex_Main
begin

section \<open>True air velocity from three GPS ground velocities\<close>

text \<open>
  The notebook \<^verbatim>\<open>TAV.ipynb\<close> computes in numpy \<^verbatim>\<open>float64\<close>. The model keeps the
  special values of IEEE 754, because numpy returns them where Python's own floats would
  raise: the two infinities, NaN and the two zeros \<^verbatim>\<open>0.0\<close> and \<^verbatim>\<open>-0.0\<close>, whose sign
  decides the sign of \<^verbatim>\<open>x/0\<close> and the value of \<^verbatim>\<open>np.arctan2\<close> on a zero vector. On
  the other finite values it computes exactly: a finite value is a real number, and
  rounding, overflow and underflow are left out. Every statement below is therefore a
  statement about the arithmetic the code performs, carried out without rounding error;
  where the rounding of \<^verbatim>\<open>float64\<close> changes what the code returns, the text says so.
\<close>

subsection \<open>numpy float64 scalars\<close>

text \<open>
  \<open>Fin x\<close> is the finite number \<open>x\<close>, \<open>Fin 0\<close> being \<^verbatim>\<open>0.0\<close>; \<open>NZero\<close> is \<^verbatim>\<open>-0.0\<close>.
\<close>

datatype npfloat = Fin real | NZero | PInf | NInf | NaN

text \<open>The value of a finite number, its sign bit, and whether it is finite.\<close>

fun fval :: "npfloat \<Rightarrow> real" where
  "fval (Fin x) = x"
| "fval NZero = 0"
| "fval PInf = 0"
| "fval NInf = 0"
| "fval NaN = 0"

fun fsign :: "npfloat \<Rightarrow> bool" where
  "fsign (Fin x) = (x < 0)"
| "fsign NZero = True"
| "fsign PInf = False"
| "fsign NInf = True"
| "fsign NaN = False"

fun ffinite :: "npfloat \<Rightarrow> bool" where
  "ffinite (Fin x) = True"
| "ffinite NZero = True"
| "ffinite PInf = False"
| "ffinite NInf = False"
| "ffinite NaN = False"

text \<open>The zero and the infinity of a given sign (\<open>True\<close>: negative).\<close>

definition fzero :: "bool \<Rightarrow> npfloat" where
  "fzero neg = (if neg then NZero else Fin 0)"

definition finf :: "bool \<Rightarrow> npfloat" where
  "finf neg = (if neg then NInf else PInf)"

text \<open>Unary minus (\<^verbatim>\<open>-x\<close>, \<^verbatim>\<open>np.negative\<close>) flips the sign, also of a zero.\<close>

fun fneg :: "npfloat \<Rightarrow> npfloat" where
  "fneg (Fin x) = (if x = 0 then NZero else Fin (- x))"
| "fneg NZero = Fin 0"
| "fneg PInf = NInf"
| "fneg NInf = PInf"
| "fneg NaN = NaN"

text \<open>
  Addition: opposite infinities give NaN; a sum that is zero is \<^verbatim>\<open>0.0\<close>, except that
  \<^verbatim>\<open>-0.0 + -0.0\<close> is \<^verbatim>\<open>-0.0\<close>.
\<close>

fun fadd :: "npfloat \<Rightarrow> npfloat \<Rightarrow> npfloat" where
  "fadd (Fin x) (Fin y) = Fin (x + y)"
| "fadd (Fin x) NZero = Fin x"
| "fadd NZero (Fin y) = Fin y"
| "fadd NZero NZero = NZero"
| "fadd NaN _ = NaN"
| "fadd _ NaN = NaN"
| "fadd PInf NInf = NaN"
| "fadd NInf PInf = NaN"
| "fadd PInf _ = PInf"
| "fadd _ PInf = PInf"
| "fadd NInf _ = NInf"
| "fadd _ NInf = NInf"

definition fsub :: "npfloat \<Rightarrow> npfloat \<Rightarrow> npfloat" where
  "fsub a b = fadd a (fneg b)"

text \<open>
  Multiplication: zero times an infinity is NaN; the sign of a zero or infinite product is
  the exclusive or of the signs of the factors.
\<close>

definition fmul :: "npfloat \<Rightarrow> npfloat \<Rightarrow> npfloat" where
  "fmul a b =
     (if a = NaN \<or> b = NaN then NaN
      else if ffinite a \<and> ffinite b then
        (if fval a * fval b = 0 then fzero (fsign a \<noteq> fsign b) else Fin (fval a * fval b))
      else if (ffinite a \<and> fval a = 0) \<or> (ffinite b \<and> fval b = 0) then NaN
      else finf (fsign a \<noteq> fsign b))"

text \<open>
  Division. numpy does not raise on a zero divisor: \<^verbatim>\<open>0/0\<close> is NaN and \<^verbatim>\<open>x/0\<close> is an
  infinity (with a RuntimeWarning only), whose sign is the exclusive or of the signs of
  \<open>x\<close> and of the zero.
\<close>

definition fdiv :: "npfloat \<Rightarrow> npfloat \<Rightarrow> npfloat" where
  "fdiv a b =
     (if a = NaN \<or> b = NaN then NaN
      else if ffinite a \<and> ffinite b then
        (if fval b = 0 then (if fval a = 0 then NaN else finf (fsign a \<noteq> fsign b))
         else if fval a = 0 then fzero (fsign a \<noteq> fsign b)
         else Fin (fval a / fval b))
      else if ffinite a then fzero (fsign a \<noteq> fsign b)
      else if ffinite b then finf (fsign a \<noteq> fsign b)
      else NaN)"

text \<open>\<^verbatim>\<open>x**2\<close>.\<close>

fun fpow2 :: "npfloat \<Rightarrow> npfloat" where
  "fpow2 (Fin x) = Fin (x\<^sup>2)"
| "fpow2 NZero = Fin 0"
| "fpow2 PInf = PInf"
| "fpow2 NInf = PInf"
| "fpow2 NaN = NaN"

text \<open>\<^verbatim>\<open>np.sqrt\<close>: NaN on a negative argument, \<^verbatim>\<open>-0.0\<close> on \<^verbatim>\<open>-0.0\<close>.\<close>

fun fsqrt :: "npfloat \<Rightarrow> npfloat" where
  "fsqrt (Fin x) = (if 0 \<le> x then Fin (sqrt x) else NaN)"
| "fsqrt NZero = NZero"
| "fsqrt PInf = PInf"
| "fsqrt NInf = NaN"
| "fsqrt NaN = NaN"

text \<open>\<^verbatim>\<open>np.cos\<close>, \<^verbatim>\<open>np.sin\<close>: NaN on an infinity.\<close>

fun fcos :: "npfloat \<Rightarrow> npfloat" where
  "fcos (Fin x) = Fin (cos x)"
| "fcos NZero = Fin 1"
| "fcos PInf = NaN"
| "fcos NInf = NaN"
| "fcos NaN = NaN"

fun fsin :: "npfloat \<Rightarrow> npfloat" where
  "fsin (Fin x) = Fin (sin x)"
| "fsin NZero = NZero"
| "fsin PInf = NaN"
| "fsin NInf = NaN"
| "fsin NaN = NaN"

text \<open>\<^verbatim>\<open>np.radians\<close> and \<^verbatim>\<open>np.degrees\<close>.\<close>

fun fradians :: "npfloat \<Rightarrow> npfloat" where
  "fradians (Fin x) = Fin (x * pi / 180)"
| "fradians NZero = NZero"
| "fradians PInf = PInf"
| "fradians NInf = NInf"
| "fradians NaN = NaN"

fun fdegrees :: "npfloat \<Rightarrow> npfloat" where
  "fdegrees (Fin x) = Fin (x * 180 / pi)"
| "fdegrees NZero = NZero"
| "fdegrees PInf = PInf"
| "fdegrees NInf = NInf"
| "fdegrees NaN = NaN"

text \<open>\<^verbatim>\<open>np.hypot\<close>: an infinite argument gives infinity, even beside a NaN.\<close>

fun fhypot :: "npfloat \<Rightarrow> npfloat \<Rightarrow> npfloat" where
  "fhypot PInf _ = PInf"
| "fhypot NInf _ = PInf"
| "fhypot _ PInf = PInf"
| "fhypot _ NInf = PInf"
| "fhypot NaN _ = NaN"
| "fhypot _ NaN = NaN"
| "fhypot a b = Fin (sqrt ((fval a)\<^sup>2 + (fval b)\<^sup>2))"

text \<open>
  The angle of the point \<open>(x, y)\<close> in \<open>(-\<pi>, \<pi>]\<close>, for real \<open>x\<close> and \<open>y\<close> (and \<open>0\<close> at the
  origin).
\<close>

definition arctan2 :: "real \<Rightarrow> real \<Rightarrow> real" where
  "arctan2 y x =
     (if 0 < x then arctan (y / x)
      else if x < 0 then (if 0 \<le> y then arctan (y / x) + pi else arctan (y / x) - pi)
      else if 0 < y then pi / 2
      else if y < 0 then - (pi / 2)
      else 0)"

text \<open>
  \<^verbatim>\<open>np.arctan2\<close>, the two-argument arctangent of C. When \<open>y\<close> is a zero, the result is a
  zero of the sign of \<open>y\<close> if \<open>x\<close> is positive or \<^verbatim>\<open>0.0\<close>, and \<open>\<pi>\<close> with the sign of \<open>y\<close> if
  \<open>x\<close> is negative or \<^verbatim>\<open>-0.0\<close>: on the four zero vectors it is \<open>0\<close>, \<open>-0\<close>, \<open>\<pi>\<close> and \<open>-\<pi>\<close>.
\<close>

definition farctan2 :: "npfloat \<Rightarrow> npfloat \<Rightarrow> npfloat" where
  "farctan2 y x =
     (if y = NaN \<or> x = NaN then NaN
      else if ffinite y \<and> ffinite x then
        (if fval y = 0 then
           (if fsign x then (if fsign y then Fin (- pi) else Fin pi) else fzero (fsign y))
         else Fin (arctan2 (fval y) (fval x)))
      else if ffinite y then
        (if x = PInf then fzero (fsign y) else if fsign y then Fin (- pi) else Fin pi)
      else if ffinite x then (if y = PInf then Fin (pi / 2) else Fin (- (pi / 2)))
      else if y = PInf then (if x = PInf then Fin (pi / 4) else Fin (3 * pi / 4))
      else (if x = PInf then Fin (- (pi / 4)) else Fin (- (3 * pi / 4))))"

text \<open>
  \<^verbatim>\<open>x % d\<close> for a finite divisor \<open>d\<close> (the code's divisor is the literal 360): the
  remainder of the floored division, which has the sign of the divisor, also when it is
  zero; NaN when \<open>x\<close> is not finite or \<open>d\<close> is zero.
\<close>

definition pymod :: "real \<Rightarrow> real \<Rightarrow> real" where
  "pymod x d = x - d * of_int \<lfloor>x / d\<rfloor>"

definition fmod :: "npfloat \<Rightarrow> real \<Rightarrow> npfloat" where
  "fmod a d =
     (if d = 0 then NaN
      else if ffinite a then
        (if pymod (fval a) d = 0 then fzero (d < 0) else Fin (pymod (fval a) d))
      else NaN)"

subsection \<open>The notebook's functions\<close>

type_synonym vec = "npfloat \<times> npfloat"

text \<open>\<^verbatim>\<open>np.subtract\<close> and unary minus on a pair, componentwise.\<close>

definition subtract :: "vec \<Rightarrow> vec \<Rightarrow> vec" where
  "subtract u v = (fsub (fst u) (fst v), fsub (snd u) (snd v))"

definition negative :: "vec \<Rightarrow> vec" where
  "negative v = (fneg (fst v), fneg (snd v))"

definition cartesian :: "npfloat \<Rightarrow> npfloat \<Rightarrow> vec" where
  "cartesian rho theta = (fmul rho (fcos theta), fmul rho (fsin theta))"

definition polar :: "vec \<Rightarrow> npfloat \<times> npfloat" where
  "polar v = (case v of (x, y) \<Rightarrow> (fhypot x y, farctan2 y x))"

definition fromCompass :: "npfloat \<Rightarrow> npfloat \<Rightarrow> vec" where
  "fromCompass speed track = cartesian speed (fradians (fsub (Fin 90) track))"

definition toCompass :: "vec \<Rightarrow> npfloat \<times> npfloat" where
  "toCompass v =
     (case polar v of (speed, theta) \<Rightarrow>
        (speed, fmod (fsub (Fin 90) (fdegrees theta)) 360))"

definition mag :: "vec \<Rightarrow> npfloat" where
  "mag v = fsqrt (fadd (fpow2 (fst v)) (fpow2 (snd v)))"

text \<open>
  The body of \<^verbatim>\<open>calculate\<close> from the chords to the air vectors, as a function of the
  three ground vectors: it returns the locals \<^verbatim>\<open>a1\<close>, \<^verbatim>\<open>w\<close>, \<^verbatim>\<open>a2\<close>, \<^verbatim>\<open>a3\<close>.
\<close>

definition air_vectors :: "vec \<Rightarrow> vec \<Rightarrow> vec \<Rightarrow> vec \<times> vec \<times> vec \<times> vec" where
  "air_vectors g1 g2 g3 =
     (let p1 = subtract g1 g2;
          p2 = subtract g1 g3;
          mq1 = fdiv (fneg (fst p1)) (snd p1);
          mq2 = fdiv (fneg (fst p2)) (snd p2);
          bq1 = fdiv (fsub (snd p1) (fmul mq1 (fst p1))) (Fin 2);
          bq2 = fdiv (fsub (snd p2) (fmul mq2 (fst p2))) (Fin 2);
          xO = fdiv (fsub bq2 bq1) (fsub mq1 mq2);
          yO = fadd (fmul mq1 xO) bq1;
          a1 = (xO, yO);
          w = subtract g1 a1;
          a2 = subtract g2 w;
          a3 = subtract g3 w
      in (a1, w, a2, a3))"

text \<open>
  \<^verbatim>\<open>calculate\<close> unpacks its argument into exactly three observations (speed, track);
  any other number of them raises \<^verbatim>\<open>ValueError\<close>. Nothing else in it raises.
\<close>

datatype py_error = ValueError

type_synonym solution = "npfloat \<times> vec \<times> npfloat list"

fun calculate :: "(npfloat \<times> npfloat) list \<Rightarrow> py_error + solution" where
  "calculate [d1, d2, d3] =
     (let g1 = fromCompass (fst d1) (snd d1);
          g2 = fromCompass (fst d2) (snd d2);
          g3 = fromCompass (fst d3) (snd d3)
      in case air_vectors g1 g2 g3 of (a1, w, a2, a3) \<Rightarrow>
           (let tas = mag a1;
                headings = map (\<lambda>v. snd (toCompass v)) [a1, a2, a3]
            in Inr (tas, w, headings)))"
| "calculate _ = Inl ValueError"

text \<open>
  The reporting cell: \<^verbatim>\<open>windSpeed, windFrom = toCompass(-w)\<close>, the speed of the wind
  and the bearing it blows from.
\<close>

definition wind :: "vec \<Rightarrow> npfloat \<times> npfloat" where
  "wind w = toCompass (negative w)"

subsection \<open>Notions used in the proofs\<close>

text \<open>
  The circle centre \<^verbatim>\<open>(xO, yO)\<close> as \<^verbatim>\<open>calculate\<close> computes it from the chords
  \<open>p1 = (a, b)\<close> and \<open>p2 = (c, d)\<close>, when all values are finite.
\<close>

definition center :: "real \<Rightarrow> real \<Rightarrow> real \<Rightarrow> real \<Rightarrow> real \<times> real" where
  "center a b c d =
     (let mq1 = - a / b;
          mq2 = - c / d;
          bq1 = (b - mq1 * a) / 2;
          bq2 = (d - mq2 * c) / 2;
          xO = (bq2 - bq1) / (mq1 - mq2)
      in (xO, mq1 * xO + bq1))"

text \<open>
  The Taylor polynomials of sine (degree 9) and cosine (degree 8), used to bound the
  sines and cosines of the known-answer test.
\<close>

definition sin_poly :: "real \<Rightarrow> real" where
  "sin_poly x = x - x ^ 3 / 6 + x ^ 5 / 120 - x ^ 7 / 5040 + x ^ 9 / 362880"

definition cos_poly :: "real \<Rightarrow> real" where
  "cos_poly x = 1 - x ^ 2 / 2 + x ^ 4 / 24 - x ^ 6 / 720 + x ^ 8 / 40320"

section \<open>Properties\<close>

subsection \<open>Remainders and the two-argument arctangent\<close>

lemma pymod_range: "0 < d \<Longrightarrow> 0 \<le> pymod x d \<and> pymod x d < d"
proof -
  assume d: "0 < d"
  have a: "of_int \<lfloor>x / d\<rfloor> \<le> x / d" by simp
  have b: "x / d < of_int \<lfloor>x / d\<rfloor> + 1" by linarith
  have e: "d * (x / d) = x" using d by simp
  from a d have "d * of_int \<lfloor>x / d\<rfloor> \<le> d * (x / d)" by (intro mult_left_mono) simp_all
  moreover from b d have "d * (x / d) < d * (of_int \<lfloor>x / d\<rfloor> + 1)"
    by (intro mult_strict_left_mono) simp_all
  ultimately show ?thesis unfolding e by (simp add: pymod_def algebra_simps)
qed

lemma pymod_shift: "d \<noteq> 0 \<Longrightarrow> pymod (x + d * of_int k) d = pymod x d"
proof -
  assume d: "d \<noteq> 0"
  have "(x + d * of_int k) / d = x / d + of_int k" using d by (simp add: field_simps)
  then have "\<lfloor>(x + d * of_int k) / d\<rfloor> = \<lfloor>x / d\<rfloor> + k" by simp
  then show ?thesis by (simp add: pymod_def algebra_simps)
qed

lemma pymod_id: "0 \<le> x \<Longrightarrow> x < d \<Longrightarrow> pymod x d = x"
proof -
  assume x: "0 \<le> x" "x < d"
  then have "0 \<le> x / d" "x / d < 1" by simp_all
  then have "\<lfloor>x / d\<rfloor> = 0" by linarith
  then show ?thesis by (simp add: pymod_def)
qed

lemma pymod_unique: "0 < d \<Longrightarrow> 0 \<le> b \<Longrightarrow> b < d \<Longrightarrow> x = b + d * of_int k \<Longrightarrow> pymod x d = b"
  using pymod_shift [of d b k] pymod_id [of b d] by simp

lemma arctan2_range: "- pi < arctan2 y x \<and> arctan2 y x \<le> pi"
proof -
  have a: "- (pi / 2) < arctan (y / x)" "arctan (y / x) < pi / 2"
    by (rule arctan_lbound, rule arctan_ubound)
  have p: "0 < pi" by simp
  show ?thesis
  proof (cases "0 < x")
    case True
    then show ?thesis using a p by (simp add: arctan2_def)
  next
    case False
    note nx = this
    show ?thesis
    proof (cases "x < 0")
      case True
      show ?thesis
      proof (cases "0 \<le> y")
        case True
        with \<open>x < 0\<close> have "y / x \<le> 0" by (simp add: divide_nonneg_neg)
        then have "arctan (y / x) \<le> 0" by simp
        then show ?thesis using a p \<open>x < 0\<close> True by (simp add: arctan2_def)
      next
        case False
        with \<open>x < 0\<close> have "0 < y / x" by (simp add: divide_neg_neg)
        then have "0 < arctan (y / x)" by simp
        then show ?thesis using a p \<open>x < 0\<close> False by (simp add: arctan2_def)
      qed
    next
      case False
      with nx have "arctan2 y x = pi / 2 \<or> arctan2 y x = - (pi / 2) \<or> arctan2 y x = 0"
        by (simp add: arctan2_def)
      then show ?thesis using p by linarith
    qed
  qed
qed

lemma sqrt_one_plus_sq_div:
  assumes "x \<noteq> 0"
  shows "sqrt (1 + (y / x)\<^sup>2) = sqrt (x\<^sup>2 + y\<^sup>2) / \<bar>x\<bar>"
proof -
  have "1 + (y / x)\<^sup>2 = (x\<^sup>2 + y\<^sup>2) / x\<^sup>2"
    using assms by (simp add: field_simps power2_eq_square)
  then show ?thesis by (simp add: real_sqrt_divide)
qed

lemma arctan2_polar:
  assumes "x \<noteq> 0 \<or> y \<noteq> 0"
  shows "sqrt (x\<^sup>2 + y\<^sup>2) * cos (arctan2 y x) = x \<and> sqrt (x\<^sup>2 + y\<^sup>2) * sin (arctan2 y x) = y"
proof -
  define r where "r = sqrt (x\<^sup>2 + y\<^sup>2)"
  have "0 < x\<^sup>2 + y\<^sup>2" using assms by (metis sum_power2_gt_zero_iff)
  then have r: "0 < r" by (simp add: r_def)
  consider "0 < x" | "x < 0" "0 \<le> y" | "x < 0" "y < 0" | "x = 0" "0 < y" | "x = 0" "y < 0"
    using assms by linarith
  then have "r * cos (arctan2 y x) = x \<and> r * sin (arctan2 y x) = y"
  proof cases
    case 1
    then have s: "sqrt (1 + (y / x)\<^sup>2) = r / x"
      using sqrt_one_plus_sq_div [of x y] by (simp add: r_def)
    show ?thesis using 1 r by (simp add: arctan2_def cos_arctan sin_arctan s)
  next
    case 2
    then have s: "sqrt (1 + (y / x)\<^sup>2) = r / (- x)"
      using sqrt_one_plus_sq_div [of x y] by (simp add: r_def)
    show ?thesis using 2 r by (simp add: arctan2_def cos_arctan sin_arctan s)
  next
    case 3
    then have s: "sqrt (1 + (y / x)\<^sup>2) = r / (- x)"
      using sqrt_one_plus_sq_div [of x y] by (simp add: r_def)
    show ?thesis using 3 r by (simp add: arctan2_def cos_arctan sin_arctan s)
  next
    case 4
    then show ?thesis by (simp add: arctan2_def r_def)
  next
    case 5
    then show ?thesis by (simp add: arctan2_def r_def)
  qed
  then show ?thesis by (simp add: r_def)
qed

lemma arctan2_cis:
  assumes r: "0 < r" and t: "- pi < t" "t \<le> pi"
  shows "arctan2 (r * sin t) (r * cos t) = t"
proof -
  have q: "(r * sin t) / (r * cos t) = tan t" using r by (simp add: tan_def)
  consider "- (pi / 2) < t" "t < pi / 2" | "pi / 2 < t" | "t < - (pi / 2)" | "t = pi / 2" | "t = - (pi / 2)"
    by linarith
  then show ?thesis
  proof cases
    case 1
    then have "0 < cos t" by (simp add: cos_gt_zero_pi)
    then have "0 < r * cos t" using r by simp
    then show ?thesis using 1 by (simp only: arctan2_def q if_True arctan_tan)
  next
    case 2
    have c: "cos (t - pi) = - cos t" and s: "sin (t - pi) = - sin t" by (simp_all add: cos_diff sin_diff)
    have "0 < cos (t - pi)" using 2 t by (intro cos_gt_zero_pi) linarith+
    then have cn: "r * cos t < 0" using r c by (simp add: mult_pos_neg)
    have "0 \<le> sin t" using 2 t by (intro sin_ge_zero) linarith+
    then have sn: "0 \<le> r * sin t" using r by simp
    have "tan t = tan (t - pi)" by (simp add: tan_def c s)
    moreover have "arctan (tan (t - pi)) = t - pi" using 2 t by (intro arctan_tan) linarith+
    ultimately have at: "arctan (tan t) = t - pi" by simp
    have n: "\<not> 0 < r * cos t" using cn by simp
    show ?thesis by (simp only: arctan2_def q n cn sn if_True if_False at)
  next
    case 3
    have c: "cos (t + pi) = - cos t" and s: "sin (t + pi) = - sin t" by (simp_all add: cos_add sin_add)
    have "0 < cos (t + pi)" using 3 t by (intro cos_gt_zero_pi) linarith+
    then have cn: "r * cos t < 0" using r c by (simp add: mult_pos_neg)
    have "0 < sin (t + pi)" using 3 t by (intro sin_gt_zero) linarith+
    then have sn: "r * sin t < 0" using r s by (simp add: mult_pos_neg)
    have "tan t = tan (t + pi)" by (simp add: tan_def c s)
    moreover have "arctan (tan (t + pi)) = t + pi" using 3 t by (intro arctan_tan) linarith+
    ultimately have at: "arctan (tan t) = t + pi" by simp
    have n: "\<not> 0 < r * cos t" "\<not> 0 \<le> r * sin t" using cn sn by simp_all
    show ?thesis by (simp only: arctan2_def q n cn if_True if_False at)
  next
    case 4
    show ?thesis unfolding 4 using r by (simp add: arctan2_def)
  next
    case 5
    show ?thesis unfolding 5 using r by (simp add: arctan2_def)
  qed
qed

subsection \<open>Arithmetic on finite values\<close>

lemma fzero_simps [simp]: "fzero False = Fin 0" "fzero True = NZero"
  by (simp_all add: fzero_def)

lemma finf_simps [simp]: "finf False = PInf" "finf True = NInf"
  by (simp_all add: finf_def)

lemma ffinite_cases: "ffinite a \<Longrightarrow> a = Fin (fval a) \<or> a = NZero"
  by (cases a) simp_all

lemma ffinite_nz: "ffinite a \<Longrightarrow> fval a \<noteq> 0 \<Longrightarrow> a = Fin (fval a)"
  by (cases a) simp_all

lemma ffinite_fzero [simp]: "ffinite (fzero n)" "fval (fzero n) = 0"
  by (simp_all add: fzero_def)

lemma fneg_val: "ffinite a \<Longrightarrow> ffinite (fneg a) \<and> fval (fneg a) = - fval a"
  by (cases a) simp_all

lemma fadd_val:
  "ffinite a \<Longrightarrow> ffinite b \<Longrightarrow> ffinite (fadd a b) \<and> fval (fadd a b) = fval a + fval b"
  by (cases a; cases b) simp_all

lemma fsub_val:
  "ffinite a \<Longrightarrow> ffinite b \<Longrightarrow> ffinite (fsub a b) \<and> fval (fsub a b) = fval a - fval b"
  unfolding fsub_def using fadd_val [of a "fneg b"] fneg_val [of b] by simp

lemma fmul_val:
  "ffinite a \<Longrightarrow> ffinite b \<Longrightarrow> ffinite (fmul a b) \<and> fval (fmul a b) = fval a * fval b"
  by (cases a; cases b) (simp_all add: fmul_def)

lemma fdiv_val:
  "ffinite a \<Longrightarrow> ffinite b \<Longrightarrow> fval b \<noteq> 0 \<Longrightarrow>
     ffinite (fdiv a b) \<and> fval (fdiv a b) = fval a / fval b"
  by (cases a; cases b) (simp_all add: fdiv_def)

lemma fsub_Fin: "fsub (Fin x) (Fin y) = Fin (x - y)"
  by (simp add: fsub_def)

lemma fsub_Fin_left: "ffinite b \<Longrightarrow> fsub (Fin x) b = Fin (x - fval b)"
  by (cases b) (simp_all add: fsub_def)

lemma fadd_Fin_right: "ffinite a \<Longrightarrow> fadd a (Fin y) = Fin (fval a + y)"
  by (cases a) simp_all

lemma fmul_Fin_pos: "0 < s \<Longrightarrow> fmul (Fin s) (Fin c) = Fin (s * c)"
  by (simp add: fmul_def)

lemma fdiv_Fin_2: "fdiv (Fin q) (Fin 2) = Fin (q / 2)"
  by (simp add: fdiv_def)

lemma subtract_Fin: "subtract (Fin x1, Fin y1) (Fin x2, Fin y2) = (Fin (x1 - x2), Fin (y1 - y2))"
  by (simp add: subtract_def fsub_Fin)

lemma fmod_Fin: "0 < d \<Longrightarrow> fmod (Fin x) d = Fin (pymod x d)"
  by (simp add: fmod_def)

lemma farctan2_Fin: "farctan2 (Fin y) (Fin x) = Fin (arctan2 y x)"
  by (simp add: farctan2_def arctan2_def)

lemma mag_val:
  "ffinite x \<Longrightarrow> ffinite y \<Longrightarrow> mag (x, y) = Fin (sqrt ((fval x)\<^sup>2 + (fval y)\<^sup>2))"
  by (cases x; cases y) (simp_all add: mag_def)

lemma fhypot_val:
  "ffinite x \<Longrightarrow> ffinite y \<Longrightarrow> fhypot x y = Fin (sqrt ((fval x)\<^sup>2 + (fval y)\<^sup>2))"
  by (cases x; cases y) simp_all

subsection \<open>Compass bearings and vectors\<close>

lemma fromCompass_val:
  "ffinite (fst (fromCompass (Fin s) (Fin b)))
   \<and> fval (fst (fromCompass (Fin s) (Fin b))) = s * cos ((90 - b) * pi / 180)
   \<and> ffinite (snd (fromCompass (Fin s) (Fin b)))
   \<and> fval (snd (fromCompass (Fin s) (Fin b))) = s * sin ((90 - b) * pi / 180)"
  using fmul_val [of "Fin s" "Fin (cos ((90 - b) * pi / 180))"]
    fmul_val [of "Fin s" "Fin (sin ((90 - b) * pi / 180))"]
  by (simp add: fromCompass_def cartesian_def fsub_Fin)

lemma fromCompass_Fin:
  assumes "0 < s"
  shows "fromCompass (Fin s) (Fin b) =
    (Fin (s * cos ((90 - b) * pi / 180)), Fin (s * sin ((90 - b) * pi / 180)))"
  using assms by (simp add: fromCompass_def cartesian_def fsub_Fin fmul_Fin_pos)

lemma fromCompass_components:
  assumes "fromCompass (Fin s) (Fin b) = (Fin x, Fin y)"
  shows "x = s * cos ((90 - b) * pi / 180)" and "y = s * sin ((90 - b) * pi / 180)"
  using fromCompass_val [of s b] by (simp_all add: assms)

lemma toCompass_Fin:
  "toCompass (Fin x, Fin y) = (Fin (sqrt (x\<^sup>2 + y\<^sup>2)), Fin (pymod (90 - arctan2 y x * 180 / pi) 360))"
  by (simp add: toCompass_def polar_def fsub_Fin farctan2_Fin fmod_Fin)

lemma mag_Fin: "mag (Fin x, Fin y) = Fin (sqrt (x\<^sup>2 + y\<^sup>2))"
  by (simp add: mag_def)

lemma norm_cis: "sqrt ((s * cos t)\<^sup>2 + (s * sin t)\<^sup>2) = \<bar>s\<bar>"
proof -
  have "(s * cos t)\<^sup>2 + (s * sin t)\<^sup>2 = s\<^sup>2 * ((cos t)\<^sup>2 + (sin t)\<^sup>2)"
    by (simp only: power_mult_distrib distrib_left)
  also have "\<dots> = s\<^sup>2" by simp
  finally show ?thesis by simp
qed

lemma pymod_90: "pymod 90 360 = 90"
  by (rule pymod_id) simp_all

lemma pymod_270: "pymod 270 360 = 270"
  by (rule pymod_id) simp_all

lemma pymod_minus_90: "pymod (- 90) 360 = 270"
  by (rule pymod_unique [where k = "- 1"]) simp_all

text \<open>
  A zero component of a non-zero vector may have either sign: the bearing is the same.
\<close>

lemma toCompass_val:
  assumes "ffinite x" "ffinite y" "fval x \<noteq> 0 \<or> fval y \<noteq> 0"
  shows "toCompass (x, y) = toCompass (Fin (fval x), Fin (fval y))"
proof -
  from ffinite_cases [OF assms(1)] ffinite_cases [OF assms(2)] assms(3)
  consider "x = Fin (fval x)" "y = Fin (fval y)"
    | "x = NZero" "y = Fin (fval y)" "fval y \<noteq> 0"
    | "x = Fin (fval x)" "y = NZero" "fval x \<noteq> 0"
    by (cases x; cases y) auto
  then show ?thesis
  proof cases
    case 1
    then show ?thesis by metis
  next
    case 2
    define v where "v = fval y"
    have y: "y = Fin v" "v \<noteq> 0" using 2 by (simp_all add: v_def)
    have "farctan2 (Fin v) NZero = Fin (arctan2 v 0)"
      using y(2) by (simp add: farctan2_def)
    then show ?thesis
      unfolding 2(1) y(1) by (simp add: toCompass_def polar_def farctan2_Fin)
  next
    case 3
    define u where "u = fval x"
    have x: "x = Fin u" "u \<noteq> 0" using 3 by (simp_all add: u_def)
    show ?thesis
    proof (cases "0 < u")
      case True
      then have "farctan2 NZero (Fin u) = NZero" by (simp add: farctan2_def)
      moreover have "arctan2 0 u = 0" using True by (simp add: arctan2_def)
      ultimately show ?thesis
        unfolding 3(2) x(1) using True
        by (simp add: toCompass_def polar_def farctan2_Fin fsub_def fmod_Fin)
    next
      case False
      then have neg: "u < 0" using x(2) by simp
      then have a: "farctan2 NZero (Fin u) = Fin (- pi)" by (simp add: farctan2_def)
      have b: "arctan2 0 u = pi" using neg by (simp add: arctan2_def)
      show ?thesis
        unfolding 3(2) x(1)
        by (simp add: toCompass_def polar_def farctan2_Fin a b fsub_Fin fmod_Fin
            pymod_270 pymod_minus_90)
    qed
  qed
qed

text \<open>
  Claim C10, as amended. \<^verbatim>\<open>toCompass\<close> applied to a zero vector does not fail and
  returns the speed 0; the bearing is 90 degrees when the x-component is \<^verbatim>\<open>0.0\<close>
  and 270 degrees when it is \<^verbatim>\<open>-0.0\<close>, whatever the sign of the y-component, because
  the arctangent of the four zero vectors is \<open>0\<close>, \<open>-0\<close>, \<open>\<pi>\<close> and \<open>-\<pi>\<close>. (The claim as
  stated gives 90 degrees for the zero vector; \<^verbatim>\<open>(-0.0, 0.0)\<close> and \<^verbatim>\<open>(-0.0, -0.0)\<close> are
  zero vectors too, equal to \<^verbatim>\<open>(0, 0)\<close> in Python.)
\<close>

theorem toCompass_zero:
  "toCompass (Fin 0, Fin 0) = (Fin 0, Fin 90)
   \<and> toCompass (Fin 0, NZero) = (Fin 0, Fin 90)
   \<and> toCompass (NZero, Fin 0) = (Fin 0, Fin 270)
   \<and> toCompass (NZero, NZero) = (Fin 0, Fin 270)"
  by (simp add: toCompass_def polar_def farctan2_def fsub_def fmod_Fin pymod_90 pymod_270
      pymod_minus_90)

text \<open>
  The reporting cell negates the wind before it calls \<^verbatim>\<open>toCompass\<close>: when the wind
  is the zero vector \<^verbatim>\<open>(0.0, 0.0)\<close>, the argument is \<^verbatim>\<open>(-0.0, -0.0)\<close>, the zero vector
  again, and the bearing returned is 270 degrees, not 90.
\<close>

theorem toCompass_negative_zero_counterexample:
  "negative (Fin 0, Fin 0) = (NZero, NZero)
   \<and> toCompass (NZero, NZero) = (Fin 0, Fin 270)
   \<and> toCompass (NZero, NZero) \<noteq> (Fin 0, Fin 90)
   \<and> wind (Fin 0, Fin 0) = (Fin 0, Fin 270)"
  by (simp add: wind_def negative_def toCompass_def polar_def farctan2_def fsub_def fmod_Fin
      pymod_270)

text \<open>
  Claim C7. For every speed \<open>s \<ge> 0\<close> and every real bearing \<open>b\<close>, the Euclidean magnitude
  of the vector \<^verbatim>\<open>fromCompass(s, b)\<close> is \<open>s\<close>: both as \<^verbatim>\<open>mag\<close> computes it and as
  \<^verbatim>\<open>polar\<close> (\<^verbatim>\<open>np.hypot\<close>) does.
\<close>

theorem fromCompass_magnitude:
  assumes "0 \<le> s"
  shows "mag (fromCompass (Fin s) (Fin b)) = Fin s \<and> fst (polar (fromCompass (Fin s) (Fin b))) = Fin s"
proof -
  obtain x y where g: "fromCompass (Fin s) (Fin b) = (x, y)"
    by (cases "fromCompass (Fin s) (Fin b)")
  from fromCompass_val [of s b] have f: "ffinite x" "ffinite y"
    and v: "fval x = s * cos ((90 - b) * pi / 180)" "fval y = s * sin ((90 - b) * pi / 180)"
    by (simp_all add: g)
  show ?thesis
    using assms by (simp add: g polar_def mag_val [OF f] fhypot_val [OF f] v norm_cis)
qed

theorem fromCompass_magnitude_witness:
  "(0::real) \<le> 140 \<and> mag (fromCompass (Fin 140) (Fin 192)) = Fin 140"
  using fromCompass_magnitude [of 140 192] by simp

lemma arctan_le_arg:
  assumes "0 \<le> x"
  shows "arctan x \<le> x"
proof -
  have "(\<lambda>t. t - arctan t) 0 \<le> (\<lambda>t. t - arctan t) x"
  proof (rule DERIV_nonneg_imp_nondecreasing [OF assms])
    fix t :: real
    have "((\<lambda>t. t - arctan t) has_real_derivative 1 - inverse (1 + t\<^sup>2)) (at t)"
      by (auto intro!: derivative_eq_intros)
    moreover have "inverse (1 + t\<^sup>2) \<le> 1" by (simp add: inverse_le_1_iff)
    ultimately show "\<exists>y. ((\<lambda>t. t - arctan t) has_real_derivative y) (at t) \<and> 0 \<le> y"
      by (intro exI [of _ "1 - inverse (1 + t\<^sup>2)"]) simp
  qed
  then show ?thesis by simp
qed

text \<open>
  Claim C8. For every non-zero vector, \<^verbatim>\<open>toCompass\<close> is to return the Euclidean norm as
  the speed and, as the bearing, 90 minus the arctangent angle in degrees reduced modulo
  360, a number of the half-open interval \<open>[0, 360)\<close>. The code reduces with \<^verbatim>\<open>% 360\<close>,
  which adds 360 to a negative remainder, in \<^verbatim>\<open>float64\<close>. For the non-zero vector
  \<open>(-3e-16, 1)\<close> the bearing computed without rounding is less than 360 by less than
  \<open>2\<^sup>-\<^sup>4\<^sup>5\<close>: it lies above the midpoint of 360 and the \<^verbatim>\<open>float64\<close> number next below
  it, \<open>360 - 2\<^sup>-\<^sup>4\<^sup>4\<close>, so that the sum rounds to 360 and the code returns the bearing
  \<^verbatim>\<open>360.0\<close>, which is not in \<open>[0, 360)\<close>.
\<close>

theorem bearing_within_rounding_of_360:
  "\<exists>r h. toCompass (Fin (- 3 / 10 ^ 16), Fin 1) = (Fin r, Fin h)
     \<and> 1 \<le> r \<and> r < 1 + 1 / 10 ^ 30
     \<and> 360 - 1 / 2 ^ 45 < h \<and> h \<le> 360"
proof -
  define x :: real where "x = - 3 / 10 ^ 16"
  define e where "e = arctan (3 / 10 ^ 16) * 180 / pi"
  have xn: "x < 0" by (simp add: x_def)
  have "1 / x = - (10 ^ 16 / 3)" by (simp add: x_def)
  moreover have "arctan (1 / (3 / 10 ^ 16 :: real)) = pi / 2 - arctan (3 / 10 ^ 16)"
    using arctan_inverse [of "3 / 10 ^ 16 :: real"] by simp
  ultimately have a: "arctan (1 / x) = arctan (3 / 10 ^ 16) - pi / 2"
    by (simp add: arctan_minus)
  have t: "arctan2 1 x = arctan (3 / 10 ^ 16) + pi / 2"
    using xn a by (simp add: arctan2_def)
  have d: "90 - arctan2 1 x * 180 / pi = - e"
    unfolding t e_def by (simp add: field_simps)
  have "0 < arctan (3 / 10 ^ 16 :: real)" by simp
  then have e0: "0 < e" by (simp add: e_def)
  have a1: "arctan (3 / 10 ^ 16 :: real) \<le> 3 / 10 ^ 16"
    by (rule arctan_le_arg) simp
  have a2: "180 / pi \<le> 90" using pi_ge_two by (simp add: field_simps)
  have "e = arctan (3 / 10 ^ 16) * (180 / pi)" by (simp add: e_def)
  also have "\<dots> \<le> (3 / 10 ^ 16) * 90"
    using a1 a2 by (intro mult_mono) simp_all
  also have "\<dots> < 1 / 2 ^ 45" by simp
  finally have e1: "e < 1 / 2 ^ 45" .
  have m: "pymod (- e) 360 = 360 - e"
  proof (rule pymod_unique [where k = "- 1"])
    show "(0::real) < 360" by simp
    show "0 \<le> 360 - e" using e1 by simp
    show "360 - e < 360" using e0 by simp
    show "- e = 360 - e + 360 * of_int (- 1)" by simp
  qed
  define r where "r = sqrt (x\<^sup>2 + 1)"
  have r1: "1 \<le> r" unfolding r_def by simp
  have "x\<^sup>2 + 1 < (1 + 1 / 10 ^ 30)\<^sup>2" by (simp add: x_def power2_eq_square)
  then have r2: "r < 1 + 1 / 10 ^ 30" unfolding r_def by (intro real_less_lsqrt) simp_all
  have "toCompass (Fin x, Fin 1) = (Fin r, Fin (360 - e))"
    by (simp add: toCompass_Fin d m r_def)
  then show ?thesis
    using r1 r2 e0 e1 unfolding x_def by (intro exI [of _ r] exI [of _ "360 - e"]) simp
qed

lemma arctan2_cis_gen:
  assumes r: "0 < r"
  shows "\<exists>k::int. arctan2 (r * sin t) (r * cos t) = t - 2 * pi * of_int k"
proof -
  define k where "k = \<lceil>(t - pi) / (2 * pi)\<rceil>"
  define u where "u = t - 2 * pi * of_int k"
  have p: "0 < 2 * pi" by simp
  have "(t - pi) / (2 * pi) \<le> of_int k" by (simp add: k_def)
  then have "t - pi \<le> of_int k * (2 * pi)" using p by (simp only: pos_divide_le_eq)
  then have u1: "u \<le> pi" by (simp add: u_def algebra_simps)
  have "of_int k < (t - pi) / (2 * pi) + 1" unfolding k_def by linarith
  also have "\<dots> = (t + pi) / (2 * pi)" by (simp add: field_simps)
  finally have "of_int k * (2 * pi) < t + pi" using p by (simp only: pos_less_divide_eq)
  then have u2: "- pi < u" by (simp add: u_def algebra_simps)
  have "sin u = sin t" "cos u = cos t"
    by (simp_all add: u_def sin_diff cos_diff)
  with arctan2_cis [OF r u2 u1] have "arctan2 (r * sin t) (r * cos t) = u" by simp
  then show ?thesis unfolding u_def by blast
qed

lemma toCompass_fromCompass_gen:
  assumes "0 < s"
  shows "toCompass (fromCompass (Fin s) (Fin b)) = (Fin s, Fin (pymod b 360))"
proof -
  define t where "t = (90 - b) * pi / 180"
  obtain k :: int where k: "arctan2 (s * sin t) (s * cos t) = t - 2 * pi * of_int k"
    using arctan2_cis_gen [OF assms] by blast
  have "90 - (t - 2 * pi * of_int k) * 180 / pi = b + 360 * of_int k"
    by (simp add: t_def field_simps)
  then have "pymod (90 - arctan2 (s * sin t) (s * cos t) * 180 / pi) 360 = pymod b 360"
    using pymod_shift [of 360 b k] k by simp
  then show ?thesis
    using assms by (simp add: fromCompass_Fin [OF assms] toCompass_Fin norm_cis t_def)
qed

text \<open>
  Claim C2, as amended. For every speed \<open>s > 0\<close> and every bearing \<open>b\<close> in \<open>[0, 360)\<close>,
  \<^verbatim>\<open>toCompass(fromCompass(s, b))\<close> is \<open>(s, b)\<close>. At speed 0 the vector is the zero
  vector, whose bearing is 90 whatever \<open>b\<close> was: the claim as stated, for every speed
  \<open>s \<ge> 0\<close>, fails at \<open>s = 0\<close>, \<open>b = 0\<close>.
\<close>

theorem roundtrip_positive_speed:
  assumes "0 < s" "0 \<le> b" "b < 360"
  shows "toCompass (fromCompass (Fin s) (Fin b)) = (Fin s, Fin b)"
  using toCompass_fromCompass_gen [OF assms(1), of b] pymod_id [OF assms(2,3)] by simp

theorem roundtrip_positive_speed_witness:
  "(0::real) < 140 \<and> (0::real) \<le> 192 \<and> (192::real) < 360
   \<and> toCompass (fromCompass (Fin 140) (Fin 192)) = (Fin 140, Fin 192)"
  using roundtrip_positive_speed [of 140 192] by simp

text \<open>
  At speed 0 and bearing 0 the round trip returns the bearing 90, not 0.
\<close>

theorem roundtrip_zero_speed_counterexample:
  "(0::real) \<le> 0 \<and> (0::real) \<le> 0 \<and> (0::real) < 360
   \<and> toCompass (fromCompass (Fin 0) (Fin 0)) = (Fin 0, Fin 90)
   \<and> toCompass (fromCompass (Fin 0) (Fin 0)) \<noteq> (Fin 0, Fin 0)"
proof -
  have "fromCompass (Fin 0) (Fin 0) = (Fin 0, Fin 0)"
    by (simp add: fromCompass_def cartesian_def fsub_Fin fmul_def)
  then show ?thesis by (simp add: toCompass_Fin arctan2_def pymod_90)
qed

subsection \<open>The circle centre\<close>

lemma center_eqs:
  assumes "b \<noteq> 0" "d \<noteq> 0" "a * d \<noteq> b * c"
  shows "2 * (a * fst (center a b c d) + b * snd (center a b c d)) = a\<^sup>2 + b\<^sup>2"
    and "2 * (c * fst (center a b c d) + d * snd (center a b c d)) = c\<^sup>2 + d\<^sup>2"
proof -
  define mq1 where "mq1 = - a / b"
  define mq2 where "mq2 = - c / d"
  define bq1 where "bq1 = (b - mq1 * a) / 2"
  define bq2 where "bq2 = (d - mq2 * c) / 2"
  define u where "u = (bq2 - bq1) / (mq1 - mq2)"
  define v where "v = mq1 * u + bq1"
  have c: "center a b c d = (u, v)"
    by (simp add: center_def Let_def mq1_def mq2_def bq1_def bq2_def u_def v_def)
  have m: "mq1 - mq2 \<noteq> 0"
    using assms by (simp add: mq1_def mq2_def field_simps)
  have bm1: "b * mq1 = - a" using assms by (simp add: mq1_def)
  have dm2: "d * mq2 = - c" using assms by (simp add: mq2_def)
  have "u * (mq1 - mq2) = bq2 - bq1" using m by (simp add: u_def)
  then have v2: "v = mq2 * u + bq2" by (simp add: v_def algebra_simps)
  have q1: "2 * bq1 = b - mq1 * a" by (simp add: bq1_def)
  have q2: "2 * bq2 = d - mq2 * c" by (simp add: bq2_def)
  have v1: "v = mq1 * u + bq1" by (simp add: v_def)
  have e1: "2 * (a * u + b * v) = a\<^sup>2 + b\<^sup>2" using bm1 q1 v1 by algebra
  have e2: "2 * (c * u + d * v) = c\<^sup>2 + d\<^sup>2" using dm2 q2 v2 by algebra
  show "2 * (a * fst (center a b c d) + b * snd (center a b c d)) = a\<^sup>2 + b\<^sup>2"
    and "2 * (c * fst (center a b c d) + d * snd (center a b c d)) = c\<^sup>2 + d\<^sup>2"
    using e1 e2 by (simp_all add: c)
qed

lemma center_unique:
  fixes a b c d u v :: real
  assumes det: "a * d \<noteq> b * c"
    and "2 * (a * u + b * v) = A" "2 * (c * u + d * v) = C"
    and "2 * (a * u' + b * v') = A" "2 * (c * u' + d * v') = C"
  shows "u = u' \<and> v = v'"
proof -
  have 1: "a * (u - u') + b * (v - v') = 0" using assms by (simp add: algebra_simps)
  have 2: "c * (u - u') + d * (v - v') = 0" using assms by (simp add: algebra_simps)
  have "d * (a * (u - u') + b * (v - v')) - b * (c * (u - u') + d * (v - v')) = (a * d - b * c) * (u - u')"
    by (simp add: algebra_simps)
  then have "(a * d - b * c) * (u - u') = 0" by (simp add: 1 2)
  then have u: "u = u'" using det by simp
  have "a * (c * (u - u') + d * (v - v')) - c * (a * (u - u') + b * (v - v')) = (a * d - b * c) * (v - v')"
    by (simp add: algebra_simps)
  then have "(a * d - b * c) * (v - v') = 0" by (simp add: 1 2)
  then have "v = v'" using det by simp
  with u show ?thesis by simp
qed

lemma slope_diff_zero_iff:
  fixes a B c D :: real
  assumes "B \<noteq> 0" "D \<noteq> 0"
  shows "a / B = c / D \<longleftrightarrow> a * D = B * c"
  using assms by (simp add: field_simps)

lemma slopes_differ_iff:
  fixes a b c d :: real
  assumes "b \<noteq> 0" "d \<noteq> 0"
  shows "- a / b - (- c / d) \<noteq> 0 \<longleftrightarrow> a * d \<noteq> b * c"
proof -
  have "- a / b = - c / d \<longleftrightarrow> (- a) * d = b * (- c)"
    using assms by (rule slope_diff_zero_iff)
  then show ?thesis by auto
qed

text \<open>
  The run of \<^verbatim>\<open>calculate\<close> on three finite ground vectors when no divisor is zero. Only
  the x-coordinate of the centre can come out as \<^verbatim>\<open>-0.0\<close>.
\<close>

lemma air_vectors_Fin:
  assumes "y1 \<noteq> y2" "y1 \<noteq> y3" "(x1 - x2) * (y1 - y3) \<noteq> (y1 - y2) * (x1 - x3)"
    and cen: "center (x1 - x2) (y1 - y2) (x1 - x3) (y1 - y3) = (u, v)"
  shows "\<exists>xO. air_vectors (Fin x1, Fin y1) (Fin x2, Fin y2) (Fin x3, Fin y3) =
           ((xO, Fin v), (Fin (x1 - u), Fin (y1 - v)),
            (Fin (x2 - (x1 - u)), Fin (y2 - (y1 - v))),
            (Fin (x3 - (x1 - u)), Fin (y3 - (y1 - v))))
         \<and> ffinite xO \<and> fval xO = u"
proof -
  define a b c d where "a = x1 - x2" and "b = y1 - y2" and "c = x1 - x3" and "d = y1 - y3"
  have nz: "b \<noteq> 0" "d \<noteq> 0" using assms(1,2) by (simp_all add: b_def d_def)
  have det: "a * d \<noteq> b * c" using assms(3) by (simp add: a_def b_def c_def d_def)
  define mq1 mq2 where "mq1 = - a / b" and "mq2 = - c / d"
  define bq1 bq2 where "bq1 = (b - mq1 * a) / 2" and "bq2 = (d - mq2 * c) / 2"
  have m: "mq1 - mq2 \<noteq> 0"
    using slopes_differ_iff [OF nz, of a c] det by (simp add: mq1_def mq2_def)
  have cen': "((bq2 - bq1) / (mq1 - mq2), mq1 * ((bq2 - bq1) / (mq1 - mq2)) + bq1) = (u, v)"
    using cen unfolding center_def Let_def a_def [symmetric] b_def [symmetric]
      c_def [symmetric] d_def [symmetric] mq1_def [symmetric] mq2_def [symmetric]
      bq1_def [symmetric] bq2_def [symmetric] .
  have u: "u = (bq2 - bq1) / (mq1 - mq2)"
    using arg_cong [OF cen' [symmetric], of fst] by (simp only: fst_conv)
  have "v = mq1 * ((bq2 - bq1) / (mq1 - mq2)) + bq1"
    using arg_cong [OF cen' [symmetric], of snd] by (simp only: snd_conv)
  then have v: "v = mq1 * u + bq1" by (simp only: u [symmetric])
  define M1 M2 where "M1 = fdiv (fneg (Fin a)) (Fin b)" and "M2 = fdiv (fneg (Fin c)) (Fin d)"
  have M1: "ffinite M1" "fval M1 = mq1"
    using fdiv_val [of "fneg (Fin a)" "Fin b"] fneg_val [of "Fin a"] nz(1)
    by (simp_all add: M1_def mq1_def)
  have M2: "ffinite M2" "fval M2 = mq2"
    using fdiv_val [of "fneg (Fin c)" "Fin d"] fneg_val [of "Fin c"] nz(2)
    by (simp_all add: M2_def mq2_def)
  have B1: "fdiv (fsub (Fin b) (fmul M1 (Fin a))) (Fin 2) = Fin bq1"
    using fmul_val [OF M1(1), of "Fin a"] M1(2)
    by (simp add: fsub_Fin_left fdiv_Fin_2 bq1_def)
  have B2: "fdiv (fsub (Fin d) (fmul M2 (Fin c))) (Fin 2) = Fin bq2"
    using fmul_val [OF M2(1), of "Fin c"] M2(2)
    by (simp add: fsub_Fin_left fdiv_Fin_2 bq2_def)
  have D: "fsub M1 M2 = Fin (mq1 - mq2)"
    using fsub_val [OF M1(1) M2(1)] ffinite_nz [of "fsub M1 M2"] m by (simp add: M1(2) M2(2))
  define XO where "XO = fdiv (Fin (bq2 - bq1)) (Fin (mq1 - mq2))"
  have XO: "ffinite XO" "fval XO = u"
    using fdiv_val [of "Fin (bq2 - bq1)" "Fin (mq1 - mq2)"] m by (simp_all add: XO_def u)
  have Y: "fadd (fmul M1 XO) (Fin bq1) = Fin v"
    using fmul_val [OF M1(1) XO(1)] by (simp add: fadd_Fin_right M1(2) XO(2) v)
  have W: "subtract (Fin x1, Fin y1) (XO, Fin v) = (Fin (x1 - u), Fin (y1 - v))"
    using XO by (simp add: subtract_def fsub_Fin_left)
  have "air_vectors (Fin x1, Fin y1) (Fin x2, Fin y2) (Fin x3, Fin y3) =
           ((XO, Fin v), (Fin (x1 - u), Fin (y1 - v)),
            (Fin (x2 - (x1 - u)), Fin (y2 - (y1 - v))),
            (Fin (x3 - (x1 - u)), Fin (y3 - (y1 - v))))"
    by (simp only: air_vectors_def Let_def subtract_Fin fst_conv snd_conv
        a_def [symmetric] b_def [symmetric] c_def [symmetric] d_def [symmetric]
        M1_def [symmetric] M2_def [symmetric] B1 B2 fsub_Fin D XO_def [symmetric] Y W)
  with XO show ?thesis by blast
qed

lemma calculate_run:
  assumes g: "fromCompass (Fin s1) (Fin b1) = (Fin x1, Fin y1)"
      "fromCompass (Fin s2) (Fin b2) = (Fin x2, Fin y2)"
      "fromCompass (Fin s3) (Fin b3) = (Fin x3, Fin y3)"
    and c: "y1 \<noteq> y2" "y1 \<noteq> y3" "(x1 - x2) * (y1 - y3) \<noteq> (y1 - y2) * (x1 - x3)"
  obtains u v where
    "calculate [(Fin s1, Fin b1), (Fin s2, Fin b2), (Fin s3, Fin b3)] =
       Inr (Fin (sqrt (u\<^sup>2 + v\<^sup>2)), (Fin (x1 - u), Fin (y1 - v)),
            [snd (toCompass (Fin u, Fin v)),
             snd (toCompass (Fin (u - (x1 - x2)), Fin (v - (y1 - y2)))),
             snd (toCompass (Fin (u - (x1 - x3)), Fin (v - (y1 - y3))))])"
    and "2 * ((x1 - x2) * u + (y1 - y2) * v) = (x1 - x2)\<^sup>2 + (y1 - y2)\<^sup>2"
    and "2 * ((x1 - x3) * u + (y1 - y3) * v) = (x1 - x3)\<^sup>2 + (y1 - y3)\<^sup>2"
    and "(u, v) \<noteq> (0, 0)"
    and "center (x1 - x2) (y1 - y2) (x1 - x3) (y1 - y3) = (u, v)"
    and "\<exists>xO. air_vectors (Fin x1, Fin y1) (Fin x2, Fin y2) (Fin x3, Fin y3) =
           ((xO, Fin v), (Fin (x1 - u), Fin (y1 - v)),
            (Fin (u - (x1 - x2)), Fin (v - (y1 - y2))),
            (Fin (u - (x1 - x3)), Fin (v - (y1 - y3))))
         \<and> ffinite xO \<and> fval xO = u"
proof -
  obtain u v where uv: "center (x1 - x2) (y1 - y2) (x1 - x3) (y1 - y3) = (u, v)"
    by (cases "center (x1 - x2) (y1 - y2) (x1 - x3) (y1 - y3)")
  have nz: "y1 - y2 \<noteq> 0" "y1 - y3 \<noteq> 0" using c by simp_all
  from center_eqs [OF nz c(3)]
  have e: "2 * ((x1 - x2) * u + (y1 - y2) * v) = (x1 - x2)\<^sup>2 + (y1 - y2)\<^sup>2"
    "2 * ((x1 - x3) * u + (y1 - y3) * v) = (x1 - x3)\<^sup>2 + (y1 - y3)\<^sup>2"
    by (simp_all add: uv)
  have n: "(u, v) \<noteq> (0, 0)"
  proof
    assume "(u, v) = (0, 0)"
    with e(1) have "(x1 - x2)\<^sup>2 + (y1 - y2)\<^sup>2 = 0" by simp
    then have "y1 - y2 = 0" by simp
    with nz show False by simp
  qed
  have a: "x2 - (x1 - u) = u - (x1 - x2)" "y2 - (y1 - v) = v - (y1 - y2)"
    "x3 - (x1 - u) = u - (x1 - x3)" "y3 - (y1 - v) = v - (y1 - y3)" by simp_all
  from air_vectors_Fin [OF c uv] obtain xO where
    av: "air_vectors (Fin x1, Fin y1) (Fin x2, Fin y2) (Fin x3, Fin y3) =
           ((xO, Fin v), (Fin (x1 - u), Fin (y1 - v)),
            (Fin (u - (x1 - x2)), Fin (v - (y1 - y2))),
            (Fin (u - (x1 - x3)), Fin (v - (y1 - y3))))"
    and xO: "ffinite xO" "fval xO = u"
    unfolding a by blast
  have f: "ffinite (Fin v)" by simp
  have m: "mag (xO, Fin v) = Fin (sqrt (u\<^sup>2 + v\<^sup>2))"
    using mag_val [OF xO(1) f] by (simp add: xO(2))
  have "fval xO \<noteq> 0 \<or> fval (Fin v) \<noteq> 0" using n by (simp add: xO(2))
  from toCompass_val [OF xO(1) f this]
  have t: "toCompass (xO, Fin v) = toCompass (Fin u, Fin v)" by (simp add: xO(2))
  have "calculate [(Fin s1, Fin b1), (Fin s2, Fin b2), (Fin s3, Fin b3)] =
       Inr (Fin (sqrt (u\<^sup>2 + v\<^sup>2)), (Fin (x1 - u), Fin (y1 - v)),
            [snd (toCompass (Fin u, Fin v)),
             snd (toCompass (Fin (u - (x1 - x2)), Fin (v - (y1 - y2)))),
             snd (toCompass (Fin (u - (x1 - x3)), Fin (v - (y1 - y3))))])"
    by (simp add: g av Let_def m t)
  moreover have "\<exists>xO. air_vectors (Fin x1, Fin y1) (Fin x2, Fin y2) (Fin x3, Fin y3) =
           ((xO, Fin v), (Fin (x1 - u), Fin (y1 - v)),
            (Fin (u - (x1 - x2)), Fin (v - (y1 - y2))),
            (Fin (u - (x1 - x3)), Fin (v - (y1 - y3))))
         \<and> ffinite xO \<and> fval xO = u"
    using av xO by blast
  ultimately show thesis using e n uv that by blast
qed

lemma sq_dist_center:
  fixes a b u v :: real
  assumes "2 * (a * u + b * v) = a\<^sup>2 + b\<^sup>2"
  shows "(u - a)\<^sup>2 + (v - b)\<^sup>2 = u\<^sup>2 + v\<^sup>2"
proof -
  have "(u - a)\<^sup>2 + (v - b)\<^sup>2 = u\<^sup>2 + v\<^sup>2 + (a\<^sup>2 + b\<^sup>2) - 2 * (a * u + b * v)"
    by (simp add: power2_eq_square algebra_simps)
  then show ?thesis using assms by simp
qed

lemma fromCompass_0: "0 < s \<Longrightarrow> fromCompass (Fin s) (Fin 0) = (Fin 0, Fin s)"
  by (simp add: fromCompass_Fin)

lemma fromCompass_90: "0 < s \<Longrightarrow> fromCompass (Fin s) (Fin 90) = (Fin s, Fin 0)"
  by (simp add: fromCompass_Fin)

lemma fromCompass_180: "0 < s \<Longrightarrow> fromCompass (Fin s) (Fin 180) = (Fin 0, Fin (- s))"
  by (simp add: fromCompass_Fin)

lemma fromCompass_270: "0 < s \<Longrightarrow> fromCompass (Fin s) (Fin 270) = (Fin (- s), Fin 0)"
  by (simp add: fromCompass_Fin)

subsection \<open>Propagation of NaN\<close>

lemma fadd_NaN [simp]: "fadd x NaN = NaN" "fadd NaN x = NaN"
  by (cases x; simp)+

lemma fmul_NaN [simp]: "fmul x NaN = NaN" "fmul NaN x = NaN"
  by (simp_all add: fmul_def)

lemma fdiv_NaN [simp]: "fdiv x NaN = NaN" "fdiv NaN x = NaN"
  by (simp_all add: fdiv_def)

lemma fsub_NaN [simp]: "fsub x NaN = NaN" "fsub NaN x = NaN"
  by (simp_all add: fsub_def)

lemma mag_NaN [simp]: "mag (NaN, y) = NaN" "mag (x, NaN) = NaN"
  by (simp_all add: mag_def)

lemma toCompass_NaN [simp]: "toCompass (NaN, NaN) = (NaN, NaN)"
  by (simp add: toCompass_def polar_def farctan2_def fmod_def)

lemma subtract_NaN [simp]: "subtract g (NaN, NaN) = (NaN, NaN)"
  by (simp add: subtract_def)

text \<open>Once the centre's x-coordinate is NaN, everything returned is NaN.\<close>

lemma air_vectors_xO_NaN:
  assumes "fdiv (fsub bq2 bq1) (fsub mq1 mq2) = NaN"
    and "mq1 = fdiv (fneg (fst (subtract g1 g2))) (snd (subtract g1 g2))"
    and "mq2 = fdiv (fneg (fst (subtract g1 g3))) (snd (subtract g1 g3))"
    and "bq1 = fdiv (fsub (snd (subtract g1 g2)) (fmul mq1 (fst (subtract g1 g2)))) (Fin 2)"
    and "bq2 = fdiv (fsub (snd (subtract g1 g3)) (fmul mq2 (fst (subtract g1 g3)))) (Fin 2)"
  shows "air_vectors g1 g2 g3 = ((NaN, NaN), (NaN, NaN), (NaN, NaN), (NaN, NaN))"
  unfolding air_vectors_def Let_def assms(2-5) [symmetric] assms(1) by simp







text \<open>
  A chord \<^verbatim>\<open>g1 - g2\<close> with the y-component \<^verbatim>\<open>0.0\<close>: the slope \<^verbatim>\<open>mq1\<close> is an infinity
  (or NaN), the intercept \<^verbatim>\<open>bq1\<close> is infinite, and the centre is \<open>\<infinity>/\<infinity>\<close>.
\<close>

lemma air_vectors_horizontal_chord1:
  "air_vectors (Fin x1, Fin y) (Fin x2, Fin y) g3 = ((NaN, NaN), (NaN, NaN), (NaN, NaN), (NaN, NaN))"
proof -
  define p2 where "p2 = subtract (Fin x1, Fin y) g3"
  define mq1 where "mq1 = fdiv (fneg (Fin (x1 - x2))) (Fin 0)"
  define mq2 where "mq2 = fdiv (fneg (fst p2)) (snd p2)"
  define bq1 where "bq1 = fdiv (fsub (Fin 0) (fmul mq1 (Fin (x1 - x2)))) (Fin 2)"
  define bq2 where "bq2 = fdiv (fsub (snd p2) (fmul mq2 (fst p2))) (Fin 2)"
  have p1: "subtract (Fin x1, Fin y) (Fin x2, Fin y) = (Fin (x1 - x2), Fin 0)"
    by (simp add: subtract_Fin)
  have "fdiv (fsub bq2 bq1) (fsub mq1 mq2) = NaN"
  proof (cases "x1 = x2")
    case True
    then have "mq1 = NaN" by (simp add: mq1_def fdiv_def)
    then show ?thesis by simp
  next
    case False
    then consider "x2 < x1" | "x1 < x2" by linarith
    then have "(mq1 = PInf \<or> mq1 = NInf) \<and> bq1 = PInf"
    proof cases
      case 1
      then have m: "mq1 = NInf" by (simp add: mq1_def fdiv_def)
      have "bq1 = PInf" unfolding bq1_def m using 1 by (simp add: fmul_def fsub_def fdiv_def)
      with m show ?thesis by simp
    next
      case 2
      then have m: "mq1 = PInf" by (simp add: mq1_def fdiv_def)
      have "bq1 = PInf" unfolding bq1_def m using 2 by (simp add: fmul_def fsub_def fdiv_def)
      with m show ?thesis by simp
    qed
    then show ?thesis
      by (cases bq2; cases mq2) (auto simp add: fsub_def fdiv_def)
  qed
  then show ?thesis
    by (rule air_vectors_xO_NaN)
      (simp_all only: p1 fst_conv snd_conv mq1_def mq2_def bq1_def bq2_def p2_def)
qed

lemma calculate_NaN:
  assumes "air_vectors (fromCompass s1 b1) (fromCompass s2 b2) (fromCompass s3 b3) =
     ((NaN, NaN), (NaN, NaN), (NaN, NaN), (NaN, NaN))"
  shows "calculate [(s1, b1), (s2, b2), (s3, b3)] = Inr (NaN, (NaN, NaN), [NaN, NaN, NaN])"
  using assms by (simp add: Let_def)

subsection \<open>Degenerate inputs\<close>




lemma mag_cases: "mag v = NaN \<or> mag v = PInf \<or> (\<exists>r. 0 \<le> r \<and> mag v = Fin r)"
  by (cases v; cases "fst v"; cases "snd v") (simp_all add: mag_def)

lemma mag_infinite_x:
  assumes "x = PInf \<or> x = NInf \<or> x = NaN"
  shows "mag (x, y) = NaN \<or> mag (x, y) = PInf"
  using assms by (cases y) (auto simp add: mag_def)

lemma fdiv_by_zero:
  assumes "n \<noteq> 0" "ffinite D" "fval D = 0"
  shows "fdiv (Fin n) D = PInf \<or> fdiv (Fin n) D = NInf"
  using assms by (cases D) (auto simp add: fdiv_def finf_def)

text \<open>
  Three ground vectors \<open>2g\<close>, \<open>g\<close>, \<open>4g\<close> on one line through the origin: the chords are \<open>g\<close>
  and \<open>-2g\<close>, the two slopes are equal, and the x-coordinate of the centre is a non-zero
  number divided by zero (or NaN, when \<open>g\<close> is horizontal).
\<close>

lemma air_vectors_one_track:
  assumes "x \<noteq> 0 \<or> y \<noteq> 0"
  shows "fst (fst (air_vectors (Fin (2 * x), Fin (2 * y)) (Fin x, Fin y) (Fin (4 * x), Fin (4 * y)))) = PInf
    \<or> fst (fst (air_vectors (Fin (2 * x), Fin (2 * y)) (Fin x, Fin y) (Fin (4 * x), Fin (4 * y)))) = NInf
    \<or> fst (fst (air_vectors (Fin (2 * x), Fin (2 * y)) (Fin x, Fin y) (Fin (4 * x), Fin (4 * y)))) = NaN"
proof (cases "y = 0")
  case True
  have "air_vectors (Fin (2 * x), Fin 0) (Fin x, Fin 0) (Fin (4 * x), Fin 0) =
      ((NaN, NaN), (NaN, NaN), (NaN, NaN), (NaN, NaN))"
    by (rule air_vectors_horizontal_chord1)
  then show ?thesis by (simp add: True)
next
  case False
  define m where "m = - x / y"
  define M1 M2 where "M1 = fdiv (fneg (Fin x)) (Fin y)"
    and "M2 = fdiv (fneg (Fin (- (2 * x)))) (Fin (- (2 * y)))"
  have p1: "subtract (Fin (2 * x), Fin (2 * y)) (Fin x, Fin y) = (Fin x, Fin y)"
    by (simp add: subtract_Fin)
  have p2: "subtract (Fin (2 * x), Fin (2 * y)) (Fin (4 * x), Fin (4 * y)) =
      (Fin (- (2 * x)), Fin (- (2 * y)))"
    by (simp add: subtract_Fin)
  have M1: "ffinite M1" "fval M1 = m"
    using fdiv_val [of "fneg (Fin x)" "Fin y"] fneg_val [of "Fin x"] False
    by (simp_all add: M1_def m_def)
  have M2: "ffinite M2" "fval M2 = m"
    using fdiv_val [of "fneg (Fin (- (2 * x)))" "Fin (- (2 * y))"]
      fneg_val [of "Fin (- (2 * x))"] False
    by (simp_all add: M2_def m_def)
  define D where "D = fsub M1 M2"
  have D: "ffinite D" "fval D = 0"
    using fsub_val [OF M1(1) M2(1)] by (simp_all add: D_def M1(2) M2(2))
  define q where "q = (y - m * x) / 2"
  have B1: "fdiv (fsub (Fin y) (fmul M1 (Fin x))) (Fin 2) = Fin q"
    using fmul_val [OF M1(1), of "Fin x"] M1(2)
    by (simp add: fsub_Fin_left fdiv_Fin_2 q_def)
  have B2: "fdiv (fsub (Fin (- (2 * y))) (fmul M2 (Fin (- (2 * x))))) (Fin 2) = Fin (- (2 * q))"
    using fmul_val [OF M2(1), of "Fin (- (2 * x))"] M2(2)
    by (simp add: fsub_Fin_left fdiv_Fin_2 q_def field_simps)
  have "y * (y - m * x) = x\<^sup>2 + y\<^sup>2"
    using False by (simp add: m_def power2_eq_square algebra_simps)
  moreover have "0 < x\<^sup>2 + y\<^sup>2" using assms by (simp add: sum_power2_gt_zero_iff)
  ultimately have "y - m * x \<noteq> 0" by auto
  then have "q \<noteq> 0" by (simp add: q_def)
  then have n: "- (2 * q) - q \<noteq> 0" by simp
  have "fst (fst (air_vectors (Fin (2 * x), Fin (2 * y)) (Fin x, Fin y) (Fin (4 * x), Fin (4 * y)))) =
      fdiv (Fin (- (2 * q) - q)) D"
    by (simp only: air_vectors_def Let_def p1 p2 fst_conv snd_conv M1_def [symmetric]
        M2_def [symmetric] B1 B2 fsub_Fin D_def [symmetric])
  with fdiv_by_zero [OF n D] show ?thesis by auto
qed

text \<open>
  Claim C4, as amended. On three observations that produce parallel perpendicular
  bisectors, as on any three observations, \<^verbatim>\<open>calculate\<close> surfaces no failure: it returns
  a result, three headings among it, whose true airspeed is a non-negative finite number,
  +Infinity or NaN. On three observations of one track with the speeds \<open>2s\<close>, \<open>s\<close> and
  \<open>4s\<close>, a collinear construction whose chords are exact multiples of each other also in
  \<^verbatim>\<open>float64\<close>, the true airspeed it returns is +Infinity or NaN. (The claim as stated
  asks for a named DegenerateGeometry failure instead of a result containing NaN or
  Infinity; the code has no failure of that kind.)
\<close>

theorem collinear_no_failure:
  fixes s b :: real
  assumes "0 < s"
  shows "(\<exists>tas w hs. calculate [d1, d2, d3] = Inr (tas, w, hs) \<and> length hs = 3
       \<and> (tas = NaN \<or> tas = PInf \<or> (\<exists>r. 0 \<le> r \<and> tas = Fin r)))
     \<and> (\<exists>tas w hs. calculate [(Fin (2 * s), Fin b), (Fin s, Fin b), (Fin (4 * s), Fin b)] =
           Inr (tas, w, hs) \<and> (tas = NaN \<or> tas = PInf))"
proof
  obtain a1 w a2 a3 where av:
    "air_vectors (fromCompass (fst d1) (snd d1)) (fromCompass (fst d2) (snd d2))
       (fromCompass (fst d3) (snd d3)) = (a1, w, a2, a3)"
    using prod_cases4 by blast
  have "calculate [d1, d2, d3] =
      Inr (mag a1, w, [snd (toCompass a1), snd (toCompass a2), snd (toCompass a3)])"
    by (simp add: av Let_def)
  with mag_cases [of a1]
  show "\<exists>tas w hs. calculate [d1, d2, d3] = Inr (tas, w, hs) \<and> length hs = 3
       \<and> (tas = NaN \<or> tas = PInf \<or> (\<exists>r. 0 \<le> r \<and> tas = Fin r))"
    by auto
next
  define x y where "x = s * cos ((90 - b) * pi / 180)" and "y = s * sin ((90 - b) * pi / 180)"
  have "x\<^sup>2 + y\<^sup>2 = s\<^sup>2 * ((cos ((90 - b) * pi / 180))\<^sup>2 + (sin ((90 - b) * pi / 180))\<^sup>2)"
    unfolding x_def y_def by (simp only: power_mult_distrib distrib_left)
  then have "x\<^sup>2 + y\<^sup>2 = s\<^sup>2" by simp
  then have nz: "x \<noteq> 0 \<or> y \<noteq> 0" using assms by auto
  have p: "0 < 2 * s" "0 < 4 * s" using assms by simp_all
  have g: "fromCompass (Fin (2 * s)) (Fin b) = (Fin (2 * x), Fin (2 * y))"
    "fromCompass (Fin s) (Fin b) = (Fin x, Fin y)"
    "fromCompass (Fin (4 * s)) (Fin b) = (Fin (4 * x), Fin (4 * y))"
    by (simp_all add: fromCompass_Fin [OF p(1)] fromCompass_Fin [OF assms]
        fromCompass_Fin [OF p(2)] x_def y_def)
  obtain a1 w a2 a3 where av1:
    "air_vectors (Fin (2 * x), Fin (2 * y)) (Fin x, Fin y) (Fin (4 * x), Fin (4 * y)) =
       (a1, w, a2, a3)"
    using prod_cases4 by blast
  obtain xO yO where a1: "a1 = (xO, yO)" by (cases a1)
  note av = av1 [unfolded a1]
  from air_vectors_one_track [OF nz] have "xO = PInf \<or> xO = NInf \<or> xO = NaN"
    by (simp add: av)
  then have m: "mag (xO, yO) = NaN \<or> mag (xO, yO) = PInf"
    by (rule mag_infinite_x)
  have "calculate [(Fin (2 * s), Fin b), (Fin s, Fin b), (Fin (4 * s), Fin b)] =
      Inr (mag (xO, yO), w, [snd (toCompass (xO, yO)), snd (toCompass a2), snd (toCompass a3)])"
    by (simp add: g av Let_def)
  with m
  show "\<exists>tas w hs. calculate [(Fin (2 * s), Fin b), (Fin s, Fin b), (Fin (4 * s), Fin b)] =
           Inr (tas, w, hs) \<and> (tas = NaN \<or> tas = PInf)"
    by blast
qed

theorem collinear_no_failure_witness:
  "(0::real) < 50
   \<and> (\<exists>tas w hs. calculate [(Fin 100, Fin 0), (Fin 50, Fin 180), (Fin 70, Fin 0)] = Inr (tas, w, hs)
        \<and> length hs = 3 \<and> (tas = NaN \<or> tas = PInf \<or> (\<exists>r. 0 \<le> r \<and> tas = Fin r)))
   \<and> (\<exists>tas w hs. calculate [(Fin (2 * 50), Fin 0), (Fin 50, Fin 0), (Fin (4 * 50), Fin 0)] =
           Inr (tas, w, hs) \<and> (tas = NaN \<or> tas = PInf))"
proof -
  have p: "(0::real) < 50" by simp
  from p collinear_no_failure [OF p, of "(Fin 100, Fin 0)" "(Fin 50, Fin 180)" "(Fin 70, Fin 0)" 0]
  show ?thesis by (rule conjI)
qed

lemma fromCompass_45:
  assumes "0 < s"
  shows "fromCompass (Fin s) (Fin 45) = (Fin (s * (sqrt 2 / 2)), Fin (s * (sqrt 2 / 2)))"
proof -
  have "(90 - 45) * pi / 180 = pi / 4" by simp
  then show ?thesis unfolding fromCompass_Fin [OF assms] by (simp only: cos_45 sin_45)
qed

lemma air_vectors_on_line:
  assumes "0 < r"
  shows "air_vectors (Fin (2 * r), Fin (2 * r)) (Fin r, Fin r) (Fin (4 * r), Fin (4 * r)) =
      ((NInf, PInf), (PInf, NInf), (NInf, PInf), (NInf, PInf))"
proof -
  have p1: "subtract (Fin (2 * r), Fin (2 * r)) (Fin r, Fin r) = (Fin r, Fin r)"
    by (simp add: subtract_Fin)
  have p2: "subtract (Fin (2 * r), Fin (2 * r)) (Fin (4 * r), Fin (4 * r)) =
      (Fin (- (2 * r)), Fin (- (2 * r)))"
    by (simp add: subtract_Fin)
  have m1: "fdiv (fneg (Fin r)) (Fin r) = Fin (- 1)"
    using assms by (simp add: fdiv_def)
  have m2: "fdiv (fneg (Fin (- (2 * r)))) (Fin (- (2 * r))) = Fin (- 1)"
    using assms by (simp add: fdiv_def)
  have b1: "fdiv (fsub (Fin r) (fmul (Fin (- 1)) (Fin r))) (Fin 2) = Fin r"
    using assms by (simp add: fmul_def fsub_Fin fdiv_def)
  have b2: "fdiv (fsub (Fin (- (2 * r))) (fmul (Fin (- 1)) (Fin (- (2 * r))))) (Fin 2) =
      Fin (- (2 * r))"
    using assms by (simp add: fmul_def fsub_Fin fdiv_def)
  have x: "fdiv (fsub (Fin (- (2 * r))) (Fin r)) (fsub (Fin (- 1)) (Fin (- 1))) = NInf"
    using assms by (simp add: fsub_Fin fdiv_def)
  have y: "fadd (fmul (Fin (- 1)) NInf) (Fin r) = PInf"
    by (simp add: fmul_def)
  have w: "subtract (Fin (2 * r), Fin (2 * r)) (NInf, PInf) = (PInf, NInf)"
    by (simp add: subtract_def fsub_def)
  have a2: "subtract (Fin r, Fin r) (PInf, NInf) = (NInf, PInf)"
    by (simp add: subtract_def fsub_def)
  have a3: "subtract (Fin (4 * r), Fin (4 * r)) (PInf, NInf) = (NInf, PInf)"
    by (simp add: subtract_def fsub_def)
  show ?thesis
    by (simp only: air_vectors_def Let_def p1 p2 fst_conv snd_conv m1 m2 b1 b2 x y w a2 a3)
qed

text \<open>
  Three ground vectors on the line of bearing 45, of speeds 2, 1 and 4: both bisector
  slopes are \<open>-1\<close>, their difference is zero, and \<^verbatim>\<open>calculate\<close> returns an infinite true
  airspeed and an infinite wind.
\<close>

theorem collinear_counterexample:
  "calculate [(Fin 2, Fin 45), (Fin 1, Fin 45), (Fin 4, Fin 45)] =
     Inr (PInf, (PInf, NInf), [Fin 315, Fin 315, Fin 315])"
proof -
  define r where "r = sqrt 2 / 2"
  have r: "0 < r" by (simp add: r_def)
  have g: "fromCompass (Fin 2) (Fin 45) = (Fin (2 * r), Fin (2 * r))"
    "fromCompass (Fin 1) (Fin 45) = (Fin r, Fin r)"
    "fromCompass (Fin 4) (Fin 45) = (Fin (4 * r), Fin (4 * r))"
    by (simp_all add: fromCompass_45 r_def)
  have "pymod (- 45) 360 = 315"
    by (rule pymod_unique [where k = "- 1"]) simp_all
  then have tc: "toCompass (NInf, PInf) = (PInf, Fin 315)"
    by (simp add: toCompass_def polar_def farctan2_def fsub_Fin fmod_Fin)
  have m: "mag (NInf, PInf) = PInf" by (simp add: mag_def)
  show ?thesis
    by (simp add: g air_vectors_on_line [OF r] Let_def tc m)
qed

text \<open>
  Claim C9, as amended. Take the three ground vectors without rounding. When the
  y-component of \<open>g1\<close> differs from those of \<open>g2\<close> and of \<open>g3\<close> (no chord from \<open>g1\<close> is
  horizontal) and the three vectors are not collinear, the three air vectors \<^verbatim>\<open>a1\<close>,
  \<^verbatim>\<open>a2\<close>, \<^verbatim>\<open>a3\<close> have the same finite Euclidean magnitude, and it is the true
  airspeed returned. In \<^verbatim>\<open>float64\<close> the three magnitudes agree up to a rounding
  error, which grows as a chord from \<open>g1\<close> approaches the horizontal. Three distinct
  observations with a circumcentre are not enough: with a horizontal chord the slope of
  its bisector is a division by zero and the result is NaN throughout.
\<close>

theorem air_vectors_equal_magnitude:
  fixes s1 b1 s2 b2 s3 b3 :: real
  assumes "fromCompass (Fin s1) (Fin b1) = (Fin x1, Fin y1)"
    and "fromCompass (Fin s2) (Fin b2) = (Fin x2, Fin y2)"
    and "fromCompass (Fin s3) (Fin b3) = (Fin x3, Fin y3)"
    and "y1 \<noteq> y2" and "y1 \<noteq> y3"
    and "(x1 - x2) * (y1 - y3) \<noteq> (y1 - y2) * (x1 - x3)"
  shows "\<exists>r a1 w a2 a3 hs.
     air_vectors (fromCompass (Fin s1) (Fin b1)) (fromCompass (Fin s2) (Fin b2))
       (fromCompass (Fin s3) (Fin b3)) = (a1, w, a2, a3)
     \<and> mag a1 = Fin r \<and> mag a2 = Fin r \<and> mag a3 = Fin r
     \<and> calculate [(Fin s1, Fin b1), (Fin s2, Fin b2), (Fin s3, Fin b3)] = Inr (Fin r, w, hs)"
proof -
  from calculate_run [OF assms] obtain u v xO where
    c: "calculate [(Fin s1, Fin b1), (Fin s2, Fin b2), (Fin s3, Fin b3)] =
       Inr (Fin (sqrt (u\<^sup>2 + v\<^sup>2)), (Fin (x1 - u), Fin (y1 - v)),
            [snd (toCompass (Fin u, Fin v)),
             snd (toCompass (Fin (u - (x1 - x2)), Fin (v - (y1 - y2)))),
             snd (toCompass (Fin (u - (x1 - x3)), Fin (v - (y1 - y3))))])"
    and e2: "2 * ((x1 - x2) * u + (y1 - y2) * v) = (x1 - x2)\<^sup>2 + (y1 - y2)\<^sup>2"
    and e3: "2 * ((x1 - x3) * u + (y1 - y3) * v) = (x1 - x3)\<^sup>2 + (y1 - y3)\<^sup>2"
    and av: "air_vectors (Fin x1, Fin y1) (Fin x2, Fin y2) (Fin x3, Fin y3) =
           ((xO, Fin v), (Fin (x1 - u), Fin (y1 - v)),
            (Fin (u - (x1 - x2)), Fin (v - (y1 - y2))),
            (Fin (u - (x1 - x3)), Fin (v - (y1 - y3))))"
    and xO: "ffinite xO" "fval xO = u"
    by metis
  have f: "ffinite (Fin v)" by simp
  have m1: "mag (xO, Fin v) = Fin (sqrt (u\<^sup>2 + v\<^sup>2))"
    using mag_val [OF xO(1) f] by (simp add: xO(2))
  have m2: "mag (Fin (u - (x1 - x2)), Fin (v - (y1 - y2))) = Fin (sqrt (u\<^sup>2 + v\<^sup>2))"
    unfolding mag_Fin by (simp only: sq_dist_center [OF e2])
  have m3: "mag (Fin (u - (x1 - x3)), Fin (v - (y1 - y3))) = Fin (sqrt (u\<^sup>2 + v\<^sup>2))"
    unfolding mag_Fin by (simp only: sq_dist_center [OF e3])
  show ?thesis
    unfolding assms(1-3) av c using m1 m2 m3 by blast
qed

theorem air_vectors_equal_magnitude_witness:
  "fromCompass (Fin 100) (Fin 0) = (Fin 0, Fin 100)
   \<and> fromCompass (Fin 50) (Fin 0) = (Fin 0, Fin 50)
   \<and> fromCompass (Fin 70) (Fin 90) = (Fin 70, Fin 0)
   \<and> (100::real) \<noteq> 50 \<and> (100::real) \<noteq> 0
   \<and> ((0::real) - 0) * (100 - 0) \<noteq> (100 - 50) * (0 - 70)
   \<and> (\<exists>r a1 w a2 a3 hs.
     air_vectors (fromCompass (Fin 100) (Fin 0)) (fromCompass (Fin 50) (Fin 0))
       (fromCompass (Fin 70) (Fin 90)) = (a1, w, a2, a3)
     \<and> mag a1 = Fin r \<and> mag a2 = Fin r \<and> mag a3 = Fin r
     \<and> calculate [(Fin 100, Fin 0), (Fin 50, Fin 0), (Fin 70, Fin 90)] = Inr (Fin r, w, hs))"
proof -
  have g: "fromCompass (Fin 100) (Fin 0) = (Fin 0, Fin 100)"
    "fromCompass (Fin 50) (Fin 0) = (Fin 0, Fin 50)"
    "fromCompass (Fin 70) (Fin 90) = (Fin 70, Fin 0)"
    by (simp_all add: fromCompass_0 fromCompass_90)
  have n: "(100::real) \<noteq> 50" "(100::real) \<noteq> 0"
    "((0::real) - 0) * (100 - 0) \<noteq> (100 - 50) * (0 - 70)"
    by simp_all
  from air_vectors_equal_magnitude [OF g n] g n show ?thesis by blast
qed

text \<open>
  The ground vectors \<open>(100, 0)\<close>, \<open>(50, 0)\<close>, \<open>(0, 70)\<close> are distinct and not collinear, so
  they have a circumcentre; the chord \<open>g1 - g2 = (50, 0)\<close> has a zero y-component, and the
  air vectors and everything returned are NaN.
\<close>

theorem horizontal_chord_counterexample:
  "fromCompass (Fin 100) (Fin 90) = (Fin 100, Fin 0)
   \<and> fromCompass (Fin 50) (Fin 90) = (Fin 50, Fin 0)
   \<and> fromCompass (Fin 70) (Fin 0) = (Fin 0, Fin 70)
   \<and> air_vectors (Fin 100, Fin 0) (Fin 50, Fin 0) (Fin 0, Fin 70) =
       ((NaN, NaN), (NaN, NaN), (NaN, NaN), (NaN, NaN))
   \<and> calculate [(Fin 100, Fin 90), (Fin 50, Fin 90), (Fin 70, Fin 0)] =
       Inr (NaN, (NaN, NaN), [NaN, NaN, NaN])"
  by (simp add: fromCompass_0 fromCompass_90 air_vectors_horizontal_chord1 Let_def)

subsection \<open>Zero wind\<close>

lemma on_circle_eq:
  fixes x1 y1 x2 y2 :: real
  assumes "x1\<^sup>2 + y1\<^sup>2 = x2\<^sup>2 + y2\<^sup>2"
  shows "2 * ((x1 - x2) * x1 + (y1 - y2) * y1) = (x1 - x2)\<^sup>2 + (y1 - y2)\<^sup>2"
proof -
  have "2 * ((x1 - x2) * x1 + (y1 - y2) * y1) - ((x1 - x2)\<^sup>2 + (y1 - y2)\<^sup>2)
      = (x1\<^sup>2 + y1\<^sup>2) - (x2\<^sup>2 + y2\<^sup>2)"
    by (simp add: power2_eq_square algebra_simps)
  then show ?thesis using assms by simp
qed

lemma fromCompass_on_circle:
  assumes "fromCompass (Fin s) (Fin b) = (Fin x, Fin y)"
  shows "x\<^sup>2 + y\<^sup>2 = s\<^sup>2"
proof -
  define t where "t = (90 - b) * pi / 180"
  have "x = s * cos t" "y = s * sin t"
    using fromCompass_components [OF assms] by (simp_all add: t_def)
  then have "x\<^sup>2 + y\<^sup>2 = s\<^sup>2 * ((cos t)\<^sup>2 + (sin t)\<^sup>2)"
    by (simp only: power_mult_distrib distrib_left)
  then show ?thesis by simp
qed

lemma wind_zero: "wind (Fin 0, Fin 0) = (Fin 0, Fin 270)"
  by (simp add: wind_def negative_def toCompass_def polar_def farctan2_def fsub_def fmod_Fin
      pymod_270)

lemma wind_nonzero:
  assumes "(a, b) \<noteq> (0, 0)"
  shows "wind (Fin a, Fin b) = toCompass (Fin (- a), Fin (- b))"
proof -
  have f: "ffinite (fneg (Fin a))" "ffinite (fneg (Fin b))"
    and v: "fval (fneg (Fin a)) = - a" "fval (fneg (Fin b)) = - b"
    using fneg_val [of "Fin a"] fneg_val [of "Fin b"] by simp_all
  have "fval (fneg (Fin a)) \<noteq> 0 \<or> fval (fneg (Fin b)) \<noteq> 0"
    using assms by (simp add: v)
  from toCompass_val [OF f this] show ?thesis
    by (simp add: wind_def negative_def v)
qed

lemma calculate_zero_wind:
  fixes s b1 b2 b3 :: real
  assumes s: "0 < s"
    and g: "fromCompass (Fin s) (Fin b1) = (Fin x1, Fin y1)"
      "fromCompass (Fin s) (Fin b2) = (Fin x2, Fin y2)"
      "fromCompass (Fin s) (Fin b3) = (Fin x3, Fin y3)"
    and c: "y1 \<noteq> y2" "y1 \<noteq> y3" "(x1 - x2) * (y1 - y3) \<noteq> (y1 - y2) * (x1 - x3)"
  shows "calculate [(Fin s, Fin b1), (Fin s, Fin b2), (Fin s, Fin b3)] =
           Inr (Fin s, (Fin 0, Fin 0), [Fin (pymod b1 360), Fin (pymod b2 360), Fin (pymod b3 360)])"
proof -
  from calculate_run [OF g c] obtain u v where
    c1: "calculate [(Fin s, Fin b1), (Fin s, Fin b2), (Fin s, Fin b3)] =
       Inr (Fin (sqrt (u\<^sup>2 + v\<^sup>2)), (Fin (x1 - u), Fin (y1 - v)),
            [snd (toCompass (Fin u, Fin v)),
             snd (toCompass (Fin (u - (x1 - x2)), Fin (v - (y1 - y2)))),
             snd (toCompass (Fin (u - (x1 - x3)), Fin (v - (y1 - y3))))])"
    and e2: "2 * ((x1 - x2) * u + (y1 - y2) * v) = (x1 - x2)\<^sup>2 + (y1 - y2)\<^sup>2"
    and e3: "2 * ((x1 - x3) * u + (y1 - y3) * v) = (x1 - x3)\<^sup>2 + (y1 - y3)\<^sup>2"
    by metis
  note n = fromCompass_on_circle [OF g(1)] fromCompass_on_circle [OF g(2)]
    fromCompass_on_circle [OF g(3)]
  have f2: "2 * ((x1 - x2) * x1 + (y1 - y2) * y1) = (x1 - x2)\<^sup>2 + (y1 - y2)\<^sup>2"
    by (rule on_circle_eq) (simp add: n)
  have f3: "2 * ((x1 - x3) * x1 + (y1 - y3) * y1) = (x1 - x3)\<^sup>2 + (y1 - y3)\<^sup>2"
    by (rule on_circle_eq) (simp add: n)
  have uv: "u = x1 \<and> v = y1" using c(3) e2 e3 f2 f3 by (rule center_unique)
  have t1: "toCompass (Fin x1, Fin y1) = (Fin s, Fin (pymod b1 360))"
    using toCompass_fromCompass_gen [OF s, of b1] by (simp only: g)
  have t2: "toCompass (Fin x2, Fin y2) = (Fin s, Fin (pymod b2 360))"
    using toCompass_fromCompass_gen [OF s, of b2] by (simp only: g)
  have t3: "toCompass (Fin x3, Fin y3) = (Fin s, Fin (pymod b3 360))"
    using toCompass_fromCompass_gen [OF s, of b3] by (simp only: g)
  have r: "sqrt (x1\<^sup>2 + y1\<^sup>2) = s" using n(1) s by simp
  have a: "x1 - (x1 - x2) = x2" "y1 - (y1 - y2) = y2" "x1 - (x1 - x3) = x3" "y1 - (y1 - y3) = y3"
    "x1 - x1 = 0" "y1 - y1 = 0"
    by simp_all
  show ?thesis
    unfolding c1 by (simp only: uv a t1 t2 t3 r snd_conv)
qed

text \<open>
  Claim C5, as amended. Let the three observations have the same speed \<open>s > 0\<close>, so that
  the ground vectors lie on a circle about the origin and the wind is zero, and take the
  ground vectors without rounding. When the y-component of \<open>g1\<close> differs from those of
  \<open>g2\<close> and of \<open>g3\<close> (no chord from \<open>g1\<close> is horizontal) and the three vectors are not
  collinear, \<^verbatim>\<open>calculate\<close> returns the wind \<open>(0, 0)\<close>, \<open>s\<close> as true airspeed and, as
  headings, the three input tracks reduced modulo 360: the tracks themselves when they
  lie in \<open>[0, 360)\<close>. In \<^verbatim>\<open>float64\<close> the result carries a rounding error, which grows
  as a chord from \<open>g1\<close> approaches the horizontal. Three distinct observations on such a
  circle are not enough: with a horizontal chord the result is NaN throughout.
\<close>

theorem zero_wind:
  fixes s b1 b2 b3 :: real
  assumes "0 < s"
    and "fromCompass (Fin s) (Fin b1) = (Fin x1, Fin y1)"
    and "fromCompass (Fin s) (Fin b2) = (Fin x2, Fin y2)"
    and "fromCompass (Fin s) (Fin b3) = (Fin x3, Fin y3)"
    and "y1 \<noteq> y2" and "y1 \<noteq> y3"
    and "(x1 - x2) * (y1 - y3) \<noteq> (y1 - y2) * (x1 - x3)"
  shows "calculate [(Fin s, Fin b1), (Fin s, Fin b2), (Fin s, Fin b3)] =
           Inr (Fin s, (Fin 0, Fin 0), [Fin (pymod b1 360), Fin (pymod b2 360), Fin (pymod b3 360)])
         \<and> (0 \<le> b1 \<and> b1 < 360 \<longrightarrow> pymod b1 360 = b1)
         \<and> (0 \<le> b2 \<and> b2 < 360 \<longrightarrow> pymod b2 360 = b2)
         \<and> (0 \<le> b3 \<and> b3 < 360 \<longrightarrow> pymod b3 360 = b3)"
  using calculate_zero_wind [OF assms] by (simp add: pymod_id)

theorem zero_wind_witness:
  "(0::real) < 100
   \<and> fromCompass (Fin 100) (Fin 0) = (Fin 0, Fin 100)
   \<and> fromCompass (Fin 100) (Fin 90) = (Fin 100, Fin 0)
   \<and> fromCompass (Fin 100) (Fin 180) = (Fin 0, Fin (- 100))
   \<and> (100::real) \<noteq> 0 \<and> (100::real) \<noteq> - 100
   \<and> ((0::real) - 100) * (100 - (- 100)) \<noteq> (100 - 0) * (0 - 0)
   \<and> calculate [(Fin 100, Fin 0), (Fin 100, Fin 90), (Fin 100, Fin 180)] =
        Inr (Fin 100, (Fin 0, Fin 0), [Fin 0, Fin 90, Fin 180])"
proof -
  have s: "(0::real) < 100" by simp
  have g: "fromCompass (Fin 100) (Fin 0) = (Fin 0, Fin 100)"
    "fromCompass (Fin 100) (Fin 90) = (Fin 100, Fin 0)"
    "fromCompass (Fin 100) (Fin 180) = (Fin 0, Fin (- 100))"
    by (simp_all add: fromCompass_0 fromCompass_90 fromCompass_180)
  have n: "(100::real) \<noteq> 0" "(100::real) \<noteq> - 100"
    "((0::real) - 100) * (100 - (- 100)) \<noteq> (100 - 0) * (0 - 0)"
    by simp_all
  from zero_wind [OF s g n] g n show ?thesis by simp
qed

text \<open>
  The tracks 140 and 220 are mirror images about the north-south axis: at the speed 100
  the ground vectors \<open>g1\<close> and \<open>g2\<close> have the same y-component \<open>100 sin (-50\<degree>)\<close> and opposite
  x-components. With the third track 0 the three ground vectors are distinct points of
  the circle of radius 100 about the origin; the chord \<open>g1 - g2\<close> is horizontal, and the
  result is NaN throughout instead of zero wind.
\<close>

theorem zero_wind_counterexample:
  "snd (fromCompass (Fin 100) (Fin 140)) = snd (fromCompass (Fin 100) (Fin 220))
   \<and> fst (fromCompass (Fin 100) (Fin 140)) \<noteq> fst (fromCompass (Fin 100) (Fin 220))
   \<and> fromCompass (Fin 100) (Fin 0) = (Fin 0, Fin 100)
   \<and> calculate [(Fin 100, Fin 140), (Fin 100, Fin 220), (Fin 100, Fin 0)] =
       Inr (NaN, (NaN, NaN), [NaN, NaN, NaN])"
proof -
  define t :: real where "t = (90 - 140) * pi / 180"
  have e: "(90 - 220) * pi / 180 = - pi - t" by (simp add: t_def)
  have sc: "sin (- pi - t) = sin t" "cos (- pi - t) = - cos t"
    by (simp_all add: sin_diff cos_diff)
  have p: "(0::real) < 100" by simp
  have g2: "fromCompass (Fin 100) (Fin 220) = (Fin (100 * - cos t), Fin (100 * sin t))"
    by (simp only: fromCompass_Fin [OF p] e sc)
  have g1: "fromCompass (Fin 100) (Fin 140) = (Fin (100 * cos t), Fin (100 * sin t))"
    by (simp only: fromCompass_Fin [OF p] t_def)
  have "t = - (50 * pi / 180)" by (simp add: t_def)
  then have "cos t = cos (50 * pi / 180)" by simp
  moreover have "0 < cos (50 * pi / 180)" by (rule cos_gt_zero) simp_all
  ultimately have c: "0 < cos t" by simp
  have 1: "snd (fromCompass (Fin 100) (Fin 140)) = snd (fromCompass (Fin 100) (Fin 220))"
    by (simp add: g1 g2)
  have 2: "fst (fromCompass (Fin 100) (Fin 140)) \<noteq> fst (fromCompass (Fin 100) (Fin 220))"
    using c by (simp add: g1 g2)
  have 3: "fromCompass (Fin 100) (Fin 0) = (Fin 0, Fin 100)"
    by (simp add: fromCompass_0)
  have "air_vectors (fromCompass (Fin 100) (Fin 140)) (fromCompass (Fin 100) (Fin 220))
      (fromCompass (Fin 100) (Fin 0)) = ((NaN, NaN), (NaN, NaN), (NaN, NaN), (NaN, NaN))"
    by (simp only: g1 g2 air_vectors_horizontal_chord1)
  then have 4: "calculate [(Fin 100, Fin 140), (Fin 100, Fin 220), (Fin 100, Fin 0)] =
       Inr (NaN, (NaN, NaN), [NaN, NaN, NaN])"
    by (rule calculate_NaN)
  from 1 2 3 4 show ?thesis by blast
qed

subsection \<open>Rotation of the bearings\<close>

lemma pymod_pymod_add: "d \<noteq> 0 \<Longrightarrow> pymod (pymod x d + y) d = pymod (x + y) d"
proof -
  assume d: "d \<noteq> 0"
  have "pymod x d + y = (x + y) + d * of_int (- \<lfloor>x / d\<rfloor>)" by (simp add: pymod_def)
  then have "pymod (pymod x d + y) d = pymod ((x + y) + d * of_int (- \<lfloor>x / d\<rfloor>)) d"
    by (rule arg_cong)
  also have "\<dots> = pymod (x + y) d" using d by (rule pymod_shift)
  finally show ?thesis .
qed

lemma rot_dot:
  fixes a b u v C S :: real
  assumes "C\<^sup>2 + S\<^sup>2 = 1"
  shows "(a * C - b * S) * (u * C - v * S) + (a * S + b * C) * (u * S + v * C) = a * u + b * v"
proof -
  have "(a * C - b * S) * (u * C - v * S) + (a * S + b * C) * (u * S + v * C)
      = (a * u + b * v) * (C\<^sup>2 + S\<^sup>2)"
    by (simp add: power2_eq_square algebra_simps)
  then show ?thesis using assms by simp
qed

lemma rot_norm:
  fixes a b C S :: real
  assumes "C\<^sup>2 + S\<^sup>2 = 1"
  shows "(a * C - b * S)\<^sup>2 + (a * S + b * C)\<^sup>2 = a\<^sup>2 + b\<^sup>2"
  using rot_dot [OF assms, of a b a b] by (simp add: power2_eq_square)

lemma rot_cross:
  fixes a b c d C S :: real
  assumes "C\<^sup>2 + S\<^sup>2 = 1"
  shows "(a * C - b * S) * (c * S + d * C) - (a * S + b * C) * (c * C - d * S) = a * d - b * c"
proof -
  have "(a * C - b * S) * (c * S + d * C) - (a * S + b * C) * (c * C - d * S)
      = (a * d - b * c) * (C\<^sup>2 + S\<^sup>2)"
    by (simp add: power2_eq_square algebra_simps)
  then show ?thesis using assms by simp
qed

text \<open>Shifting the bearing by \<open>\<delta>\<close> degrees turns the vector by \<open>- \<delta> \<pi> / 180\<close>.\<close>

lemma shift_components:
  assumes "fromCompass (Fin s) (Fin b) = (Fin x, Fin y)"
    and "fromCompass (Fin s) (Fin (b + \<delta>)) = (Fin x', Fin y')"
  shows "x' = x * cos (- \<delta> * pi / 180) - y * sin (- \<delta> * pi / 180)"
    and "y' = x * sin (- \<delta> * pi / 180) + y * cos (- \<delta> * pi / 180)"
proof -
  define t where "t = (90 - b) * pi / 180"
  define p where "p = - \<delta> * pi / 180"
  have xy: "x = s * cos t" "y = s * sin t"
    using fromCompass_components [OF assms(1)] by (simp_all add: t_def)
  have e: "(90 - (b + \<delta>)) * pi / 180 = t + p" by (simp add: t_def p_def field_simps)
  have "x' = s * cos (t + p)" "y' = s * sin (t + p)"
    using fromCompass_components [OF assms(2)] by (simp_all only: e)
  then have "x' = x * cos p - y * sin p" "y' = x * sin p + y * cos p"
    by (simp_all add: xy cos_add sin_add algebra_simps)
  then show "x' = x * cos (- \<delta> * pi / 180) - y * sin (- \<delta> * pi / 180)"
    and "y' = x * sin (- \<delta> * pi / 180) + y * cos (- \<delta> * pi / 180)"
    by (simp_all only: p_def)
qed

text \<open>Turning a non-zero vector by \<open>p\<close> shifts its bearing by \<open>- p\<close> in degrees, modulo 360.\<close>

lemma toCompass_rot:
  assumes nz: "(x, y) \<noteq> (0, 0)"
    and tc: "toCompass (Fin x, Fin y) = (Fin r, Fin h)"
  shows "toCompass (Fin (x * cos p - y * sin p), Fin (x * sin p + y * cos p)) =
    (Fin r, Fin (pymod (h - p * 180 / pi) 360))"
proof -
  define t where "t = arctan2 y x"
  have r: "r = sqrt (x\<^sup>2 + y\<^sup>2)" and h: "h = pymod (90 - t * 180 / pi) 360"
    using tc by (simp_all add: toCompass_Fin t_def)
  have "x \<noteq> 0 \<or> y \<noteq> 0" using nz by simp
  from arctan2_polar [OF this] have xy: "x = r * cos t" "y = r * sin t"
    by (simp_all add: r t_def)
  have "0 < x\<^sup>2 + y\<^sup>2" using nz by (simp add: sum_power2_gt_zero_iff)
  then have rpos: "0 < r" by (simp add: r)
  have x': "x * cos p - y * sin p = r * cos (t + p)"
    and y': "x * sin p + y * cos p = r * sin (t + p)"
    by (simp_all add: xy cos_add sin_add algebra_simps)
  obtain k :: int where k: "arctan2 (r * sin (t + p)) (r * cos (t + p)) = t + p - 2 * pi * of_int k"
    using arctan2_cis_gen [OF rpos] by blast
  have "90 - (t + p - 2 * pi * of_int k) * 180 / pi = (90 - t * 180 / pi - p * 180 / pi) + 360 * of_int k"
    by (simp add: field_simps)
  then have "pymod (90 - (t + p - 2 * pi * of_int k) * 180 / pi) 360 =
      pymod ((90 - t * 180 / pi - p * 180 / pi) + 360 * of_int k) 360"
    by (simp only:)
  also have "\<dots> = pymod (90 - t * 180 / pi - p * 180 / pi) 360"
    by (rule pymod_shift) simp
  also have "\<dots> = pymod (pymod (90 - t * 180 / pi) 360 + (- (p * 180 / pi))) 360"
    using pymod_pymod_add [of 360 "90 - t * 180 / pi" "- (p * 180 / pi)"] by simp
  finally have b: "pymod (90 - (t + p - 2 * pi * of_int k) * 180 / pi) 360 =
      pymod (h - p * 180 / pi) 360"
    by (simp add: h)
  have n: "sqrt ((r * cos (t + p))\<^sup>2 + (r * sin (t + p))\<^sup>2) = r"
    using norm_cis [of r "t + p"] rpos by simp
  show ?thesis unfolding x' y' toCompass_Fin k n b ..
qed

lemma toCompass_Fin_ex: "\<exists>r h. toCompass (Fin x, Fin y) = (Fin r, Fin h)"
  by (simp add: toCompass_Fin)

lemma heading_rot:
  fixes u v a b p :: real
  assumes e: "2 * (a * u + b * v) = a\<^sup>2 + b\<^sup>2" and nz: "(u, v) \<noteq> (0, 0)"
    and tc: "snd (toCompass (Fin (u - a), Fin (v - b))) = Fin h"
  shows "snd (toCompass (Fin ((u - a) * cos p - (v - b) * sin p),
                        Fin ((u - a) * sin p + (v - b) * cos p))) =
         Fin (pymod (h - p * 180 / pi) 360)"
proof -
  have "0 < u\<^sup>2 + v\<^sup>2" using nz by (simp add: sum_power2_gt_zero_iff)
  then have "0 < (u - a)\<^sup>2 + (v - b)\<^sup>2" by (simp only: sq_dist_center [OF e])
  then have n: "(u - a, v - b) \<noteq> (0, 0)" by auto
  obtain r h' where t: "toCompass (Fin (u - a), Fin (v - b)) = (Fin r, Fin h')"
    using toCompass_Fin_ex by blast
  with tc have "h' = h" by simp
  with toCompass_rot [OF n t, of p] show ?thesis by simp
qed

text \<open>
  Claim C6, as amended. Let \<open>\<delta>\<close> be any offset, and take the ground vectors without
  rounding, those of the three observations and those of the observations with every
  bearing shifted by \<open>\<delta>\<close>. When in both triples the y-component of \<open>g1\<close> differs from
  those of \<open>g2\<close> and of \<open>g3\<close> (no chord from \<open>g1\<close> is horizontal) and the three vectors
  are not collinear, both runs return the same finite true airspeed and the same wind
  speed, every heading of the shifted run is the heading of the unshifted run plus \<open>\<delta>\<close>
  modulo 360, and so is the bearing the wind blows from when the wind is not zero. In
  \<^verbatim>\<open>float64\<close> both runs carry a rounding error, which grows as a chord from \<open>g1\<close>
  approaches the horizontal. This is not so for every non-degenerate input: the shift
  can make a chord horizontal, and then the shifted run returns NaN; and a wind that is
  zero is reported from the bearing 270 in both runs.
\<close>

theorem rotation_symmetry:
  fixes s1 b1 s2 b2 s3 b3 \<delta> :: real
  assumes g: "fromCompass (Fin s1) (Fin b1) = (Fin x1, Fin y1)"
      "fromCompass (Fin s2) (Fin b2) = (Fin x2, Fin y2)"
      "fromCompass (Fin s3) (Fin b3) = (Fin x3, Fin y3)"
    and G: "fromCompass (Fin s1) (Fin (b1 + \<delta>)) = (Fin X1, Fin Y1)"
      "fromCompass (Fin s2) (Fin (b2 + \<delta>)) = (Fin X2, Fin Y2)"
      "fromCompass (Fin s3) (Fin (b3 + \<delta>)) = (Fin X3, Fin Y3)"
    and c: "y1 \<noteq> y2" "y1 \<noteq> y3" "(x1 - x2) * (y1 - y3) \<noteq> (y1 - y2) * (x1 - x3)"
    and c': "Y1 \<noteq> Y2" "Y1 \<noteq> Y3"
  shows "\<exists>tas w w' h1 h2 h3 ws wf wf'.
     calculate [(Fin s1, Fin b1), (Fin s2, Fin b2), (Fin s3, Fin b3)] =
       Inr (Fin tas, w, [Fin h1, Fin h2, Fin h3])
     \<and> calculate [(Fin s1, Fin (b1 + \<delta>)), (Fin s2, Fin (b2 + \<delta>)), (Fin s3, Fin (b3 + \<delta>))] =
       Inr (Fin tas, w',
            [Fin (pymod (h1 + \<delta>) 360), Fin (pymod (h2 + \<delta>) 360), Fin (pymod (h3 + \<delta>) 360)])
     \<and> wind w = (Fin ws, Fin wf) \<and> wind w' = (Fin ws, Fin wf')
     \<and> (w \<noteq> (Fin 0, Fin 0) \<longrightarrow> wf' = pymod (wf + \<delta>) 360)"
proof -
  define p where "p = - \<delta> * pi / 180"
  define C S where "C = cos p" and "S = sin p"
  have cs: "C\<^sup>2 + S\<^sup>2 = 1" by (simp add: C_def S_def)
  have pd: "\<And>h. h - p * 180 / pi = h + \<delta>" by (simp add: p_def)
  note sh = shift_components [OF g(1) G(1)] shift_components [OF g(2) G(2)]
    shift_components [OF g(3) G(3)]
  note XY = sh [folded p_def, folded C_def S_def]
  from calculate_run [OF g c] obtain u v where
    c1: "calculate [(Fin s1, Fin b1), (Fin s2, Fin b2), (Fin s3, Fin b3)] =
       Inr (Fin (sqrt (u\<^sup>2 + v\<^sup>2)), (Fin (x1 - u), Fin (y1 - v)),
            [snd (toCompass (Fin u, Fin v)),
             snd (toCompass (Fin (u - (x1 - x2)), Fin (v - (y1 - y2)))),
             snd (toCompass (Fin (u - (x1 - x3)), Fin (v - (y1 - y3))))])"
    and e2: "2 * ((x1 - x2) * u + (y1 - y2) * v) = (x1 - x2)\<^sup>2 + (y1 - y2)\<^sup>2"
    and e3: "2 * ((x1 - x3) * u + (y1 - y3) * v) = (x1 - x3)\<^sup>2 + (y1 - y3)\<^sup>2"
    and nz: "(u, v) \<noteq> (0, 0)"
    by metis
  have d2: "X1 - X2 = (x1 - x2) * C - (y1 - y2) * S" "Y1 - Y2 = (x1 - x2) * S + (y1 - y2) * C"
    and d3: "X1 - X3 = (x1 - x3) * C - (y1 - y3) * S" "Y1 - Y3 = (x1 - x3) * S + (y1 - y3) * C"
    by (simp_all add: XY algebra_simps)
  have "(X1 - X2) * (Y1 - Y3) - (Y1 - Y2) * (X1 - X3) =
      (x1 - x2) * (y1 - y3) - (y1 - y2) * (x1 - x3)"
    unfolding d2 d3 using rot_cross [OF cs, of "x1 - x2" "y1 - y2" "x1 - x3" "y1 - y3"]
    by (simp add: algebra_simps)
  with c(3) have det': "(X1 - X2) * (Y1 - Y3) \<noteq> (Y1 - Y2) * (X1 - X3)" by auto
  from calculate_run [OF G c' det'] obtain u' v' where
    c2: "calculate [(Fin s1, Fin (b1 + \<delta>)), (Fin s2, Fin (b2 + \<delta>)), (Fin s3, Fin (b3 + \<delta>))] =
       Inr (Fin (sqrt (u'\<^sup>2 + v'\<^sup>2)), (Fin (X1 - u'), Fin (Y1 - v')),
            [snd (toCompass (Fin u', Fin v')),
             snd (toCompass (Fin (u' - (X1 - X2)), Fin (v' - (Y1 - Y2)))),
             snd (toCompass (Fin (u' - (X1 - X3)), Fin (v' - (Y1 - Y3))))])"
    and e2': "2 * ((X1 - X2) * u' + (Y1 - Y2) * v') = (X1 - X2)\<^sup>2 + (Y1 - Y2)\<^sup>2"
    and e3': "2 * ((X1 - X3) * u' + (Y1 - Y3) * v') = (X1 - X3)\<^sup>2 + (Y1 - Y3)\<^sup>2"
    by metis
  have f2: "2 * ((X1 - X2) * (u * C - v * S) + (Y1 - Y2) * (u * S + v * C)) =
      (X1 - X2)\<^sup>2 + (Y1 - Y2)\<^sup>2"
    unfolding d2 by (simp only: rot_dot [OF cs] rot_norm [OF cs] e2)
  have f3: "2 * ((X1 - X3) * (u * C - v * S) + (Y1 - Y3) * (u * S + v * C)) =
      (X1 - X3)\<^sup>2 + (Y1 - Y3)\<^sup>2"
    unfolding d3 by (simp only: rot_dot [OF cs] rot_norm [OF cs] e3)
  have uv': "u' = u * C - v * S \<and> v' = u * S + v * C"
    using det' e2' e3' f2 f3 by (rule center_unique)
  then have u': "u' = u * C - v * S" and v': "v' = u * S + v * C" by simp_all
  have tas: "sqrt (u'\<^sup>2 + v'\<^sup>2) = sqrt (u\<^sup>2 + v\<^sup>2)"
    unfolding u' v' by (simp only: rot_norm [OF cs])
  have a2: "u' - (X1 - X2) = (u - (x1 - x2)) * C - (v - (y1 - y2)) * S"
    "v' - (Y1 - Y2) = (u - (x1 - x2)) * S + (v - (y1 - y2)) * C"
    and a3: "u' - (X1 - X3) = (u - (x1 - x3)) * C - (v - (y1 - y3)) * S"
    "v' - (Y1 - Y3) = (u - (x1 - x3)) * S + (v - (y1 - y3)) * C"
    unfolding u' v' d2 d3 by (simp_all add: algebra_simps)
  obtain h1 h2 h3 where h:
    "snd (toCompass (Fin u, Fin v)) = Fin h1"
    "snd (toCompass (Fin (u - (x1 - x2)), Fin (v - (y1 - y2)))) = Fin h2"
    "snd (toCompass (Fin (u - (x1 - x3)), Fin (v - (y1 - y3)))) = Fin h3"
    by (simp add: toCompass_Fin)
  have z: "2 * (0 * u + 0 * v) = (0::real)\<^sup>2 + 0\<^sup>2" by simp
  have h1': "snd (toCompass (Fin u', Fin v')) = Fin (pymod (h1 + \<delta>) 360)"
    using heading_rot [OF z nz, of h1 p] h(1) pd unfolding u' v' C_def S_def by simp
  have h2': "snd (toCompass (Fin (u' - (X1 - X2)), Fin (v' - (Y1 - Y2)))) = Fin (pymod (h2 + \<delta>) 360)"
    using heading_rot [OF e2 nz h(2), of p] pd unfolding a2 C_def S_def by simp
  have h3': "snd (toCompass (Fin (u' - (X1 - X3)), Fin (v' - (Y1 - Y3)))) = Fin (pymod (h3 + \<delta>) 360)"
    using heading_rot [OF e3 nz h(3), of p] pd unfolding a3 C_def S_def by simp
  define w w' where "w = (Fin (x1 - u), Fin (y1 - v))" and "w' = (Fin (X1 - u'), Fin (Y1 - v'))"
  have R1: "calculate [(Fin s1, Fin b1), (Fin s2, Fin b2), (Fin s3, Fin b3)] =
       Inr (Fin (sqrt (u\<^sup>2 + v\<^sup>2)), w, [Fin h1, Fin h2, Fin h3])"
    unfolding c1 h w_def ..
  have R2: "calculate [(Fin s1, Fin (b1 + \<delta>)), (Fin s2, Fin (b2 + \<delta>)), (Fin s3, Fin (b3 + \<delta>))] =
       Inr (Fin (sqrt (u\<^sup>2 + v\<^sup>2)), w',
            [Fin (pymod (h1 + \<delta>) 360), Fin (pymod (h2 + \<delta>) 360), Fin (pymod (h3 + \<delta>) 360)])"
    unfolding c2 h1' h2' h3' tas w'_def ..
  have wr: "X1 - u' = (x1 - u) * C - (y1 - v) * S" "Y1 - v' = (x1 - u) * S + (y1 - v) * C"
    by (simp_all add: XY u' v' algebra_simps)
  have "\<exists>ws wf wf'. wind w = (Fin ws, Fin wf) \<and> wind w' = (Fin ws, Fin wf')
     \<and> (w \<noteq> (Fin 0, Fin 0) \<longrightarrow> wf' = pymod (wf + \<delta>) 360)"
  proof (cases "(x1 - u, y1 - v) = (0, 0)")
    case True
    then have "w = (Fin 0, Fin 0)" "w' = (Fin 0, Fin 0)"
      by (simp_all add: w_def w'_def wr)
    then show ?thesis by (simp add: wind_zero)
  next
    case False
    then have n: "(- (x1 - u), - (y1 - v)) \<noteq> (0, 0)" by auto
    have "0 < (x1 - u)\<^sup>2 + (y1 - v)\<^sup>2" using False by (simp add: sum_power2_gt_zero_iff)
    then have "0 < (X1 - u')\<^sup>2 + (Y1 - v')\<^sup>2" unfolding wr by (simp only: rot_norm [OF cs])
    then have False': "(X1 - u', Y1 - v') \<noteq> (0, 0)" by auto
    obtain ws wf where t: "toCompass (Fin (- (x1 - u)), Fin (- (y1 - v))) = (Fin ws, Fin wf)"
      using toCompass_Fin_ex by blast
    have W1: "wind w = (Fin ws, Fin wf)"
      unfolding w_def wind_nonzero [OF False] t ..
    have nr: "- (X1 - u') = (- (x1 - u)) * C - (- (y1 - v)) * S"
      "- (Y1 - v') = (- (x1 - u)) * S + (- (y1 - v)) * C"
      by (simp_all add: wr algebra_simps)
    have W2: "wind w' = (Fin ws, Fin (pymod (wf + \<delta>) 360))"
      unfolding w'_def wind_nonzero [OF False'] nr C_def S_def
      using toCompass_rot [OF n t, of p] pd by simp
    from W1 W2 show ?thesis by blast
  qed
  with R1 R2 show ?thesis by blast
qed

theorem rotation_symmetry_witness:
  "fromCompass (Fin 100) (Fin 0) = (Fin 0, Fin 100)
   \<and> fromCompass (Fin 50) (Fin 0) = (Fin 0, Fin 50)
   \<and> fromCompass (Fin 70) (Fin 90) = (Fin 70, Fin 0)
   \<and> fromCompass (Fin 100) (Fin (0 + 180)) = (Fin 0, Fin (- 100))
   \<and> fromCompass (Fin 50) (Fin (0 + 180)) = (Fin 0, Fin (- 50))
   \<and> fromCompass (Fin 70) (Fin (90 + 180)) = (Fin (- 70), Fin 0)
   \<and> (100::real) \<noteq> 50 \<and> (100::real) \<noteq> 0
   \<and> ((0::real) - 0) * (100 - 0) \<noteq> (100 - 50) * (0 - 70)
   \<and> (- 100::real) \<noteq> - 50 \<and> (- 100::real) \<noteq> 0
   \<and> (\<exists>tas w w' h1 h2 h3 ws wf wf'.
     calculate [(Fin 100, Fin 0), (Fin 50, Fin 0), (Fin 70, Fin 90)] =
       Inr (Fin tas, w, [Fin h1, Fin h2, Fin h3])
     \<and> calculate [(Fin 100, Fin (0 + 180)), (Fin 50, Fin (0 + 180)), (Fin 70, Fin (90 + 180))] =
       Inr (Fin tas, w',
            [Fin (pymod (h1 + 180) 360), Fin (pymod (h2 + 180) 360), Fin (pymod (h3 + 180) 360)])
     \<and> wind w = (Fin ws, Fin wf) \<and> wind w' = (Fin ws, Fin wf')
     \<and> w \<noteq> (Fin 0, Fin 0) \<and> wf' = pymod (wf + 180) 360)"
proof -
  have g: "fromCompass (Fin 100) (Fin 0) = (Fin 0, Fin 100)"
    "fromCompass (Fin 50) (Fin 0) = (Fin 0, Fin 50)"
    "fromCompass (Fin 70) (Fin 90) = (Fin 70, Fin 0)"
    by (simp_all add: fromCompass_0 fromCompass_90)
  have G: "fromCompass (Fin 100) (Fin (0 + 180)) = (Fin 0, Fin (- 100))"
    "fromCompass (Fin 50) (Fin (0 + 180)) = (Fin 0, Fin (- 50))"
    "fromCompass (Fin 70) (Fin (90 + 180)) = (Fin (- 70), Fin 0)"
    by (simp_all add: fromCompass_180 fromCompass_270)
  have n: "(100::real) \<noteq> 50" "(100::real) \<noteq> 0"
    "((0::real) - 0) * (100 - 0) \<noteq> (100 - 50) * (0 - 70)"
    by simp_all
  have n': "(- 100::real) \<noteq> - 50" "(- 100::real) \<noteq> 0" by simp_all
  from rotation_symmetry [OF g G n n'] obtain tas w w' h1 h2 h3 ws wf wf' where
    r: "calculate [(Fin 100, Fin 0), (Fin 50, Fin 0), (Fin 70, Fin 90)] =
       Inr (Fin tas, w, [Fin h1, Fin h2, Fin h3])"
    "calculate [(Fin 100, Fin (0 + 180)), (Fin 50, Fin (0 + 180)), (Fin 70, Fin (90 + 180))] =
       Inr (Fin tas, w',
            [Fin (pymod (h1 + 180) 360), Fin (pymod (h2 + 180) 360), Fin (pymod (h3 + 180) 360)])"
    "wind w = (Fin ws, Fin wf)" "wind w' = (Fin ws, Fin wf')"
    and i: "w \<noteq> (Fin 0, Fin 0) \<longrightarrow> wf' = pymod (wf + 180) 360"
    by blast
  from calculate_run [OF g n] obtain u v where
    c: "calculate [(Fin 100, Fin 0), (Fin 50, Fin 0), (Fin 70, Fin 90)] =
       Inr (Fin (sqrt (u\<^sup>2 + v\<^sup>2)), (Fin (0 - u), Fin (100 - v)),
            [snd (toCompass (Fin u, Fin v)),
             snd (toCompass (Fin (u - (0 - 0)), Fin (v - (100 - 50)))),
             snd (toCompass (Fin (u - (0 - 70)), Fin (v - (100 - 0))))])"
    and e: "2 * ((0 - 0) * u + (100 - 50) * v) = (0 - 0)\<^sup>2 + (100 - 50)\<^sup>2"
    by metis
  from e have "v = 25" by (simp add: power2_eq_square)
  with c r(1) have "w \<noteq> (Fin 0, Fin 0)" by auto
  with i r g G n n' show ?thesis by blast
qed

text \<open>
  The observations (100, 0), (50, 0), (70, 90) give a finite result; with every bearing
  shifted by 90 the first two ground vectors are \<open>(100, 0)\<close> and \<open>(50, 0)\<close>, their chord is
  horizontal, and the shifted run returns NaN. The observations (100, 90), (100, 0),
  (100, 180) have zero wind, and so have they with every bearing shifted by 90; no chord
  from \<open>g1\<close> is horizontal in either run, and both runs report the wind from the bearing
  270, where the shift asks for \<open>(270 + 90) mod 360 = 0\<close> in the second.
\<close>

theorem rotation_counterexample:
  "(\<exists>tas w hs. calculate [(Fin 100, Fin 0), (Fin 50, Fin 0), (Fin 70, Fin 90)] =
         Inr (Fin tas, w, hs))
   \<and> calculate [(Fin 100, Fin (0 + 90)), (Fin 50, Fin (0 + 90)), (Fin 70, Fin (90 + 90))] =
       Inr (NaN, (NaN, NaN), [NaN, NaN, NaN])
   \<and> calculate [(Fin 100, Fin 90), (Fin 100, Fin 0), (Fin 100, Fin 180)] =
       Inr (Fin 100, (Fin 0, Fin 0), [Fin 90, Fin 0, Fin 180])
   \<and> calculate [(Fin 100, Fin (90 + 90)), (Fin 100, Fin (0 + 90)), (Fin 100, Fin (180 + 90))] =
       Inr (Fin 100, (Fin 0, Fin 0), [Fin 180, Fin 90, Fin 270])
   \<and> wind (Fin 0, Fin 0) = (Fin 0, Fin 270)
   \<and> pymod (270 + 90) 360 = 0"
proof -
  have g: "fromCompass (Fin 100) (Fin 0) = (Fin 0, Fin 100)"
    "fromCompass (Fin 50) (Fin 0) = (Fin 0, Fin 50)"
    "fromCompass (Fin 70) (Fin 90) = (Fin 70, Fin 0)"
    by (simp_all add: fromCompass_0 fromCompass_90)
  have n: "(100::real) \<noteq> 50" "(100::real) \<noteq> 0"
    "((0::real) - 0) * (100 - 0) \<noteq> (100 - 50) * (0 - 70)"
    by simp_all
  have 1: "\<exists>tas w hs. calculate [(Fin 100, Fin 0), (Fin 50, Fin 0), (Fin 70, Fin 90)] =
         Inr (Fin tas, w, hs)"
    using calculate_run [OF g n] by metis
  have 2: "calculate [(Fin 100, Fin (0 + 90)), (Fin 50, Fin (0 + 90)), (Fin 70, Fin (90 + 90))] =
       Inr (NaN, (NaN, NaN), [NaN, NaN, NaN])"
    by (simp add: fromCompass_90 fromCompass_180 air_vectors_horizontal_chord1 Let_def)
  have s: "(0::real) < 100" by simp
  have z: "fromCompass (Fin 100) (Fin 90) = (Fin 100, Fin 0)"
    "fromCompass (Fin 100) (Fin 0) = (Fin 0, Fin 100)"
    "fromCompass (Fin 100) (Fin 180) = (Fin 0, Fin (- 100))"
    "fromCompass (Fin 100) (Fin 270) = (Fin (- 100), Fin 0)"
    by (simp_all add: fromCompass_0 fromCompass_90 fromCompass_180 fromCompass_270)
  have m: "pymod 90 360 = 90" "pymod 0 360 = 0" "pymod 180 360 = 180" "pymod 270 360 = 270"
    by (simp_all add: pymod_id)
  have 3: "calculate [(Fin 100, Fin 90), (Fin 100, Fin 0), (Fin 100, Fin 180)] =
       Inr (Fin 100, (Fin 0, Fin 0), [Fin 90, Fin 0, Fin 180])"
    using calculate_zero_wind [OF s z(1) z(2) z(3)] by (simp add: m)
  have 4: "calculate [(Fin 100, Fin (90 + 90)), (Fin 100, Fin (0 + 90)), (Fin 100, Fin (180 + 90))] =
       Inr (Fin 100, (Fin 0, Fin 0), [Fin 180, Fin 90, Fin 270])"
    using calculate_zero_wind [OF s z(3) z(1) z(4)] by (simp add: m)
  have 5: "pymod (270 + 90) 360 = 0"
    by (rule pymod_unique [where k = 1]) simp_all
  from 1 2 3 4 5 wind_zero show ?thesis by blast
qed

subsection \<open>Bounds on sine, cosine and \<open>\<pi>\<close>\<close>

lemma sin_poly_sum: "(\<Sum>m<11. sin_coeff m * x ^ m) = sin_poly x"
  by (simp add: sin_poly_def sin_coeff_def lessThan_nat_numeral fact_numeral)

lemma cos_poly_sum: "(\<Sum>m<10. cos_coeff m * x ^ m) = cos_poly x"
  by (simp add: cos_poly_def cos_coeff_def lessThan_nat_numeral fact_numeral)

lemma sin_poly_bound: "\<bar>sin x - sin_poly x\<bar> \<le> \<bar>x\<bar> ^ 11 / 39916800"
proof -
  have f: "fact 11 = (39916800::real)" by (simp add: fact_numeral)
  have "\<bar>sin x - sin_poly x\<bar> \<le> inverse (fact 11) * \<bar>x\<bar> ^ 11"
    using Maclaurin_sin_bound [of x 11] by (simp only: sin_poly_sum)
  also have "\<dots> = \<bar>x\<bar> ^ 11 / 39916800" by (simp only: f inverse_eq_divide)
  finally show ?thesis .
qed

lemma cos_poly_bound: "\<bar>cos x - cos_poly x\<bar> \<le> \<bar>x\<bar> ^ 10 / 3628800"
proof -
  obtain t where t: "cos x = (\<Sum>m<10. cos_coeff m * x ^ m) + (cos (t + 1 / 2 * real 10 * pi) / fact 10) * x ^ 10"
    using Maclaurin_cos_expansion [of x 10] by blast
  define c where "c = cos (t + 1 / 2 * real 10 * pi)"
  have c: "\<bar>c\<bar> \<le> 1" by (simp add: c_def)
  have f: "fact 10 = (3628800::real)" by (simp add: fact_numeral)
  have "cos x - cos_poly x = c * (x ^ 10 / 3628800)"
    using t by (simp only: cos_poly_sum c_def [symmetric] f)
  then have "\<bar>cos x - cos_poly x\<bar> = \<bar>c\<bar> * (\<bar>x\<bar> ^ 10 / 3628800)"
    by (simp only: abs_mult abs_divide power_abs abs_numeral)
  also have "\<dots> \<le> 1 * (\<bar>x\<bar> ^ 10 / 3628800)"
    by (rule mult_right_mono [OF c]) simp
  finally show ?thesis by simp
qed

lemma abs_diff_bounds:
  fixes a p e :: real
  assumes "\<bar>a - p\<bar> \<le> e"
  shows "p - e \<le> a" and "a \<le> p + e"
  using assms by linarith+

lemma one_le_pi_half: "1 \<le> pi / 2"
  using pi_ge_two by simp

lemma sin_enclosure:
  assumes "0 \<le> xl" "xl \<le> x" "x \<le> xh" "xh \<le> 1"
  shows "sin_poly xl - xl ^ 11 / 39916800 \<le> sin x"
    and "sin x \<le> sin_poly xh + xh ^ 11 / 39916800"
proof -
  have h: "- (pi / 2) \<le> xl" "xh \<le> pi / 2" using assms one_le_pi_half by linarith+
  have "sin xl \<le> sin x" using h assms by (intro sin_monotone_2pi_le) linarith+
  moreover have "sin_poly xl - xl ^ 11 / 39916800 \<le> sin xl"
    using abs_diff_bounds(1) [OF sin_poly_bound [of xl]] by (simp only: abs_of_nonneg [OF assms(1)])
  ultimately show "sin_poly xl - xl ^ 11 / 39916800 \<le> sin x" by linarith
  have "sin x \<le> sin xh" using h assms by (intro sin_monotone_2pi_le) linarith+
  moreover have xh: "0 \<le> xh" using assms by linarith
  have "sin xh \<le> sin_poly xh + xh ^ 11 / 39916800"
    using abs_diff_bounds(2) [OF sin_poly_bound [of xh]] by (simp only: abs_of_nonneg [OF xh])
  ultimately show "sin x \<le> sin_poly xh + xh ^ 11 / 39916800" by linarith
qed

lemma cos_enclosure:
  assumes "0 \<le> xl" "xl \<le> x" "x \<le> xh" "xh \<le> 1"
  shows "cos_poly xh - xh ^ 10 / 3628800 \<le> cos x"
    and "cos x \<le> cos_poly xl + xl ^ 10 / 3628800"
proof -
  have h: "xh \<le> pi" using assms one_le_pi_half by linarith
  have "cos xh \<le> cos x" using h assms by (intro cos_monotone_0_pi_le) linarith+
  moreover have xh: "0 \<le> xh" using assms by linarith
  have "cos_poly xh - xh ^ 10 / 3628800 \<le> cos xh"
    using abs_diff_bounds(1) [OF cos_poly_bound [of xh]] by (simp only: abs_of_nonneg [OF xh])
  ultimately show "cos_poly xh - xh ^ 10 / 3628800 \<le> cos x" by linarith
  have "cos x \<le> cos xl" using h assms by (intro cos_monotone_0_pi_le) linarith+
  moreover have "cos xl \<le> cos_poly xl + xl ^ 10 / 3628800"
    using abs_diff_bounds(2) [OF cos_poly_bound [of xl]] by (simp only: abs_of_nonneg [OF assms(1)])
  ultimately show "cos x \<le> cos_poly xl + xl ^ 10 / 3628800" by linarith
qed

lemma sin_poly_frac:
  fixes n D :: real
  assumes "D \<noteq> 0"
  shows "sin_poly (n / D) + s * (n / D) ^ 11 / 39916800 =
    (39916800 * n * D ^ 10 - 6652800 * n ^ 3 * D ^ 8 + 332640 * n ^ 5 * D ^ 6
       - 7920 * n ^ 7 * D ^ 4 + 110 * n ^ 9 * D ^ 2 + s * n ^ 11) / (39916800 * D ^ 11)"
  using assms by (simp add: sin_poly_def field_simps) algebra

lemma cos_poly_frac:
  fixes n D :: real
  assumes "D \<noteq> 0"
  shows "cos_poly (n / D) + s * (n / D) ^ 10 / 3628800 =
    (3628800 * D ^ 10 - 1814400 * n ^ 2 * D ^ 8 + 151200 * n ^ 4 * D ^ 6
       - 5040 * n ^ 6 * D ^ 4 + 90 * n ^ 8 * D ^ 2 + s * n ^ 10) / (3628800 * D ^ 10)"
  using assms by (simp add: cos_poly_def field_simps) algebra

lemma sin_le_frac:
  fixes n D p q x :: real
  assumes x: "0 \<le> x" "x \<le> n / D" and D: "0 < D" "n \<le> D" and q: "0 < q"
    and le: "(39916800 * n * D ^ 10 - 6652800 * n ^ 3 * D ^ 8 + 332640 * n ^ 5 * D ^ 6
       - 7920 * n ^ 7 * D ^ 4 + 110 * n ^ 9 * D ^ 2 + n ^ 11) * q \<le> p * (39916800 * D ^ 11)"
  shows "sin x \<le> p / q"
proof -
  have "n / D \<le> 1" using D by simp
  from sin_enclosure(2) [OF x(1) order_refl x(2) this]
  have "sin x \<le> sin_poly (n / D) + 1 * (n / D) ^ 11 / 39916800" by simp
  also have "\<dots> = (39916800 * n * D ^ 10 - 6652800 * n ^ 3 * D ^ 8 + 332640 * n ^ 5 * D ^ 6
       - 7920 * n ^ 7 * D ^ 4 + 110 * n ^ 9 * D ^ 2 + 1 * n ^ 11) / (39916800 * D ^ 11)"
    using D by (intro sin_poly_frac) simp
  also have "\<dots> \<le> p / q"
    using le D q by (simp add: divide_le_eq pos_le_divide_eq mult.commute)
  finally show ?thesis .
qed

lemma sin_ge_frac:
  fixes n D p q x :: real
  assumes x: "n / D \<le> x" "x \<le> 1" and D: "0 < D" "0 \<le> n" and q: "0 < q"
    and le: "p * (39916800 * D ^ 11) \<le> (39916800 * n * D ^ 10 - 6652800 * n ^ 3 * D ^ 8
       + 332640 * n ^ 5 * D ^ 6 - 7920 * n ^ 7 * D ^ 4 + 110 * n ^ 9 * D ^ 2 + (- 1) * n ^ 11) * q"
  shows "p / q \<le> sin x"
proof -
  have n: "0 \<le> n / D" using D by simp
  have "p / q \<le> (39916800 * n * D ^ 10 - 6652800 * n ^ 3 * D ^ 8 + 332640 * n ^ 5 * D ^ 6
       - 7920 * n ^ 7 * D ^ 4 + 110 * n ^ 9 * D ^ 2 + (- 1) * n ^ 11) / (39916800 * D ^ 11)"
    using le D q by (simp add: divide_le_eq pos_le_divide_eq mult.commute)
  also have "\<dots> = sin_poly (n / D) + (- 1) * (n / D) ^ 11 / 39916800"
    using D by (intro sin_poly_frac [symmetric]) simp
  also have "\<dots> \<le> sin x"
    using sin_enclosure(1) [OF n x(1) order_refl x(2)] by simp
  finally show ?thesis .
qed

lemma cos_le_frac:
  fixes n D p q x :: real
  assumes x: "n / D \<le> x" "x \<le> 1" and D: "0 < D" "0 \<le> n" and q: "0 < q"
    and le: "(3628800 * D ^ 10 - 1814400 * n ^ 2 * D ^ 8 + 151200 * n ^ 4 * D ^ 6
       - 5040 * n ^ 6 * D ^ 4 + 90 * n ^ 8 * D ^ 2 + n ^ 10) * q \<le> p * (3628800 * D ^ 10)"
  shows "cos x \<le> p / q"
proof -
  have n: "0 \<le> n / D" using D by simp
  from cos_enclosure(2) [OF n x(1) order_refl x(2)]
  have "cos x \<le> cos_poly (n / D) + 1 * (n / D) ^ 10 / 3628800" by simp
  also have "\<dots> = (3628800 * D ^ 10 - 1814400 * n ^ 2 * D ^ 8 + 151200 * n ^ 4 * D ^ 6
       - 5040 * n ^ 6 * D ^ 4 + 90 * n ^ 8 * D ^ 2 + 1 * n ^ 10) / (3628800 * D ^ 10)"
    using D by (intro cos_poly_frac) simp
  also have "\<dots> \<le> p / q"
    using le D q by (simp add: divide_le_eq pos_le_divide_eq mult.commute)
  finally show ?thesis .
qed

lemma cos_ge_frac:
  fixes n D p q x :: real
  assumes x: "0 \<le> x" "x \<le> n / D" and D: "0 < D" "n \<le> D" and q: "0 < q"
    and le: "p * (3628800 * D ^ 10) \<le> (3628800 * D ^ 10 - 1814400 * n ^ 2 * D ^ 8
       + 151200 * n ^ 4 * D ^ 6 - 5040 * n ^ 6 * D ^ 4 + 90 * n ^ 8 * D ^ 2 + (- 1) * n ^ 10) * q"
  shows "p / q \<le> cos x"
proof -
  have n: "n / D \<le> 1" using D by simp
  have "p / q \<le> (3628800 * D ^ 10 - 1814400 * n ^ 2 * D ^ 8 + 151200 * n ^ 4 * D ^ 6
       - 5040 * n ^ 6 * D ^ 4 + 90 * n ^ 8 * D ^ 2 + (- 1) * n ^ 10) / (3628800 * D ^ 10)"
    using le D q by (simp add: divide_le_eq pos_le_divide_eq mult.commute)
  also have "\<dots> = cos_poly (n / D) + (- 1) * (n / D) ^ 10 / 3628800"
    using D by (intro cos_poly_frac [symmetric]) simp
  also have "\<dots> \<le> cos x"
    using cos_enclosure(1) [OF x(1) order_refl x(2) n] by simp
  finally show ?thesis .
qed

lemma pi_lower: "3.14159265 < pi"
proof -
  define x :: real where "x = 523598775 / 1000000000"
  have "sin x \<le> 4999999999 / 10000000000"
    unfolding x_def by (rule sin_le_frac [where n = 523598775 and D = 1000000000]) simp_all
  then have s: "sin x < sin (pi / 6)" by (simp add: sin_30)
  have "x < pi / 6"
  proof (rule ccontr)
    assume "\<not> x < pi / 6"
    then have "pi / 6 \<le> x" by simp
    moreover have "x \<le> pi / 2" using one_le_pi_half by (simp add: x_def)
    moreover have "- (pi / 2) \<le> pi / 6" using pi_gt_zero by linarith
    ultimately have "sin (pi / 6) \<le> sin x" by (intro sin_monotone_2pi_le)
    with s show False by simp
  qed
  then show ?thesis by (simp add: x_def)
qed

lemma pi_upper: "pi < 3.141592662"
proof -
  define x :: real where "x = 523598777 / 1000000000"
  have "5000000001 / 10000000000 \<le> sin x"
    unfolding x_def by (rule sin_ge_frac [where n = 523598777 and D = 1000000000]) simp_all
  then have s: "sin (pi / 6) < sin x" by (simp add: sin_30)
  have "pi / 6 < x"
  proof (rule ccontr)
    assume "\<not> pi / 6 < x"
    then have "x \<le> pi / 6" by simp
    moreover have "pi / 6 \<le> pi / 2" using pi_gt_zero by linarith
    moreover have "- (pi / 2) \<le> x" unfolding x_def using pi_gt_zero by linarith
    ultimately have "sin x \<le> sin (pi / 6)" by (intro sin_monotone_2pi_le)
    with s show False by simp
  qed
  then show ?thesis by (simp add: x_def)
qed

subsection \<open>Interval arithmetic\<close>

lemma iv_const: "(k::real) \<in> {k..k}"
  by simp

lemma iv_add:
  fixes x y :: real
  assumes "x \<in> {xl..xh}" "y \<in> {yl..yh}" "zl \<le> xl + yl" "xh + yh \<le> zh"
  shows "x + y \<in> {zl..zh}"
  using assms by simp

lemma iv_sub:
  fixes x y :: real
  assumes "x \<in> {xl..xh}" "y \<in> {yl..yh}" "zl \<le> xl - yh" "xh - yl \<le> zh"
  shows "x - y \<in> {zl..zh}"
  using assms by simp

lemma iv_neg:
  fixes x :: real
  assumes "x \<in> {xl..xh}" "zl \<le> - xh" "- xl \<le> zh"
  shows "- x \<in> {zl..zh}"
  using assms by simp

lemma corner_lower:
  fixes c y :: real
  assumes "yl \<le> y" "y \<le> yh" "z \<le> c * yl" "z \<le> c * yh"
  shows "z \<le> c * y"
proof (cases "0 \<le> c")
  case True
  then have "c * yl \<le> c * y" using assms(1) by (rule mult_left_mono [rotated])
  with assms(3) show ?thesis by linarith
next
  case False
  then have "c * yh \<le> c * y" using assms(2) by (simp add: mult_left_mono_neg)
  with assms(4) show ?thesis by linarith
qed

lemma corner_upper:
  fixes c y :: real
  assumes "yl \<le> y" "y \<le> yh" "c * yl \<le> z" "c * yh \<le> z"
  shows "c * y \<le> z"
proof (cases "0 \<le> c")
  case True
  then have "c * y \<le> c * yh" using assms(2) by (rule mult_left_mono [rotated])
  with assms(4) show ?thesis by linarith
next
  case False
  then have "c * y \<le> c * yl" using assms(1) by (simp add: mult_left_mono_neg)
  with assms(3) show ?thesis by linarith
qed

lemma iv_mult:
  fixes x y :: real
  assumes x: "x \<in> {xl..xh}" and y: "y \<in> {yl..yh}"
    and l: "zl \<le> xl * yl" "zl \<le> xl * yh" "zl \<le> xh * yl" "zl \<le> xh * yh"
    and u: "xl * yl \<le> zh" "xl * yh \<le> zh" "xh * yl \<le> zh" "xh * yh \<le> zh"
  shows "x * y \<in> {zl..zh}"
proof -
  from x y have b: "xl \<le> x" "x \<le> xh" "yl \<le> y" "y \<le> yh" by simp_all
  have 1: "zl \<le> xl * y" using b(3,4) l(1,2) by (rule corner_lower)
  have 2: "zl \<le> xh * y" using b(3,4) l(3,4) by (rule corner_lower)
  have "zl \<le> y * x"
  proof (rule corner_lower [OF b(1,2)])
    show "zl \<le> y * xl" using 1 by (simp only: mult.commute)
    show "zl \<le> y * xh" using 2 by (simp only: mult.commute)
  qed
  moreover
  have 3: "xl * y \<le> zh" using b(3,4) u(1,2) by (rule corner_upper)
  have 4: "xh * y \<le> zh" using b(3,4) u(3,4) by (rule corner_upper)
  have "y * x \<le> zh"
  proof (rule corner_upper [OF b(1,2)])
    show "y * xl \<le> zh" using 3 by (simp only: mult.commute)
    show "y * xh \<le> zh" using 4 by (simp only: mult.commute)
  qed
  ultimately show ?thesis by (simp only: atLeastAtMost_iff mult.commute [of x y] simp_thms)
qed

lemma iv_inverse:
  fixes y :: real
  assumes y: "y \<in> {yl..yh}" and s: "0 < yl \<or> yh < 0"
  shows "1 / y \<in> {1 / yh..1 / yl}"
proof -
  from y have b: "yl \<le> y" "y \<le> yh" by simp_all
  from s show ?thesis
  proof
    assume "0 < yl"
    then show ?thesis using b by (simp add: frac_le)
  next
    assume "yh < 0"
    then have "0 < - yh" "- yh \<le> - y" "- y \<le> - yl" using b by simp_all
    then have "1 / (- yl) \<le> 1 / (- y)" "1 / (- y) \<le> 1 / (- yh)"
      by (simp_all add: frac_le del: divide_minus_right)
    then show ?thesis by simp
  qed
qed

lemma iv_div:
  fixes x y :: real
  assumes x: "x \<in> {xl..xh}" and y: "y \<in> {yl..yh}" and s: "0 < yl \<or> yh < 0"
    and l: "zl \<le> xl / yh" "zl \<le> xl / yl" "zl \<le> xh / yh" "zl \<le> xh / yl"
    and u: "xl / yh \<le> zh" "xl / yl \<le> zh" "xh / yh \<le> zh" "xh / yl \<le> zh"
  shows "x / y \<in> {zl..zh}"
proof -
  have "x * (1 / y) \<in> {zl..zh}"
    using x iv_inverse [OF y s] by (rule iv_mult) (simp_all add: l u)
  then show ?thesis by simp
qed

lemma iv_sqrt:
  fixes x :: real
  assumes x: "x \<in> {xl..xh}" and "0 \<le> zl" "zl * zl \<le> xl" "0 \<le> zh" "xh \<le> zh * zh"
  shows "sqrt x \<in> {zl..zh}"
proof -
  from x have b: "xl \<le> x" "x \<le> xh" by simp_all
  have "zl\<^sup>2 \<le> x" using b assms(3) by (simp add: power2_eq_square)
  then have "zl \<le> sqrt x" by (rule real_le_rsqrt)
  moreover have "x \<le> zh\<^sup>2" using b assms(5) by (simp add: power2_eq_square)
  then have "sqrt x \<le> zh" using assms(4) by (simp add: real_le_lsqrt)
  ultimately show ?thesis by simp
qed

subsection \<open>Headings from the arctangent\<close>

lemma deg_less: "a < b \<Longrightarrow> a * 180 / pi < b * 180 / pi"
proof -
  assume "a < b"
  then have "a * (180 / pi) < b * (180 / pi)" by (rule mult_strict_right_mono) simp
  then show ?thesis by simp
qed

lemma deg_le: "a \<le> b \<Longrightarrow> a * 180 / pi \<le> b * 180 / pi"
proof -
  assume "a \<le> b"
  then have "a * (180 / pi) \<le> b * (180 / pi)" by (rule mult_right_mono) simp
  then show ?thesis by simp
qed

lemma rad_less: "a < b \<Longrightarrow> a * pi / 180 < b * pi / 180"
proof -
  assume "a < b"
  then have "a * (pi / 180) < b * (pi / 180)" by (rule mult_strict_right_mono) simp
  then show ?thesis by simp
qed

lemma deg_rad: "(a * pi / 180) * 180 / pi = a"
  by simp

lemma arctan_deg_range: "- 90 < arctan q * 180 / pi \<and> arctan q * 180 / pi < 90"
proof -
  have "- (pi / 2) * 180 / pi < arctan q * 180 / pi" by (rule deg_less) (rule arctan_lbound)
  moreover have "arctan q * 180 / pi < pi / 2 * 180 / pi" by (rule deg_less) (rule arctan_ubound)
  ultimately show ?thesis by simp
qed

text \<open>A vector at compass bearing \<open>b\<close> has the components \<open>(s sin b, s cos b)\<close>.\<close>

lemma fromCompass_sin_cos:
  assumes "0 < s"
  shows "fromCompass (Fin s) (Fin b) = (Fin (s * sin (b * pi / 180)), Fin (s * cos (b * pi / 180)))"
proof -
  have "(90 - b) * pi / 180 = pi / 2 - b * pi / 180" by (simp add: field_simps)
  then show ?thesis by (simp only: fromCompass_Fin [OF assms] cos_diff sin_diff) simp
qed

lemma heading_west:
  assumes "x < 0"
  shows "snd (toCompass (Fin x, Fin y)) = Fin (270 - arctan (y / x) * 180 / pi)"
proof -
  define A where "A = arctan (y / x) * 180 / pi"
  have A: "- 90 < A" "A < 90" using arctan_deg_range [of "y / x"] by (simp_all add: A_def)
  have e: "90 - arctan2 y x * 180 / pi = (270 - A) + 360 * of_int (if 0 \<le> y then - 1 else 0)"
    using assms by (simp add: arctan2_def A_def field_simps)
  have "pymod (90 - arctan2 y x * 180 / pi) 360 = 270 - A"
  proof (rule pymod_unique [OF _ _ _ e])
    show "(0::real) < 360" by simp
    show "0 \<le> 270 - A" using A by simp
    show "270 - A < 360" using A by simp
  qed
  then show ?thesis by (simp add: toCompass_Fin A_def)
qed

lemma heading_east:
  assumes "0 < x"
  shows "snd (toCompass (Fin x, Fin y)) = Fin (90 - arctan (y / x) * 180 / pi)"
proof -
  define A where "A = arctan (y / x) * 180 / pi"
  have A: "- 90 < A" "A < 90" using arctan_deg_range [of "y / x"] by (simp_all add: A_def)
  have "90 - arctan2 y x * 180 / pi = 90 - A"
    using assms by (simp add: arctan2_def A_def)
  moreover have "pymod (90 - A) 360 = 90 - A" using A by (intro pymod_id) simp_all
  ultimately have "pymod (90 - arctan2 y x * 180 / pi) 360 = 90 - A" by simp
  then show ?thesis by (simp add: toCompass_Fin A_def)
qed

text \<open>Bounds on the arctangent, in degrees, from the sine and cosine of the bound.\<close>

lemma arctan_deg_ge:
  assumes a: "- 90 < \<alpha>" "\<alpha> < 90" and t: "sin (\<alpha> * pi / 180) \<le> q * cos (\<alpha> * pi / 180)"
  shows "\<alpha> \<le> arctan q * 180 / pi"
proof -
  define t where "t = \<alpha> * pi / 180"
  have r: "- (pi / 2) < t" "t < pi / 2"
    using rad_less [OF a(1)] rad_less [OF a(2)] by (simp_all add: t_def)
  then have c: "0 < cos t" by (rule cos_gt_zero_pi)
  have "sin t / cos t \<le> q" using t c by (simp only: t_def [symmetric] pos_divide_le_eq)
  then have "arctan (tan t) \<le> arctan q" by (simp only: arctan_le_iff tan_def)
  then have "t \<le> arctan q" using r by (simp add: arctan_tan)
  then have "t * 180 / pi \<le> arctan q * 180 / pi" by (rule deg_le)
  then show ?thesis by (simp add: t_def)
qed

lemma arctan_deg_le:
  assumes a: "- 90 < \<alpha>" "\<alpha> < 90" and t: "q * cos (\<alpha> * pi / 180) \<le> sin (\<alpha> * pi / 180)"
  shows "arctan q * 180 / pi \<le> \<alpha>"
proof -
  define t where "t = \<alpha> * pi / 180"
  have r: "- (pi / 2) < t" "t < pi / 2"
    using rad_less [OF a(1)] rad_less [OF a(2)] by (simp_all add: t_def)
  then have c: "0 < cos t" by (rule cos_gt_zero_pi)
  have "q \<le> sin t / cos t" using t c by (simp only: t_def [symmetric] pos_le_divide_eq)
  then have "arctan q \<le> arctan (tan t)" by (simp only: arctan_le_iff tan_def)
  then have "arctan q \<le> t" using r by (simp add: arctan_tan)
  then have "arctan q * 180 / pi \<le> t * 180 / pi" by (rule deg_le)
  then show ?thesis by (simp add: t_def)
qed

lemma sin_cos_deg_nonneg:
  assumes "0 < \<beta>" "\<beta> < 90"
  shows "0 \<le> sin (\<beta> * pi / 180)" and "0 \<le> cos (\<beta> * pi / 180)"
proof -
  have t: "0 < \<beta> * pi / 180" "\<beta> * pi / 180 < pi / 2"
    using rad_less [OF assms(1)] rad_less [OF assms(2)] by simp_all
  then have "0 < sin (\<beta> * pi / 180)" by (rule sin_gt_zero2)
  then show "0 \<le> sin (\<beta> * pi / 180)" by simp
  from t have "0 < cos (\<beta> * pi / 180)" by (rule cos_gt_zero)
  then show "0 \<le> cos (\<beta> * pi / 180)" by simp
qed

lemma compl_deg:
  shows "sin ((90 - \<beta>) * pi / 180) = cos (\<beta> * pi / 180)"
    and "cos ((90 - \<beta>) * pi / 180) = sin (\<beta> * pi / 180)"
proof -
  have "(90 - \<beta>) * pi / 180 = pi / 2 - \<beta> * pi / 180" by (simp add: field_simps)
  then show "sin ((90 - \<beta>) * pi / 180) = cos (\<beta> * pi / 180)"
    and "cos ((90 - \<beta>) * pi / 180) = sin (\<beta> * pi / 180)"
    by (simp_all only: sin_diff cos_diff sin_pi_half cos_pi_half)
qed

lemma neg_deg:
  shows "sin (- \<alpha> * pi / 180) = - sin (\<alpha> * pi / 180)"
    and "cos (- \<alpha> * pi / 180) = cos (\<alpha> * pi / 180)"
  by simp_all

lemma arctan_deg_ge_compl:
  assumes b: "0 < \<beta>" "\<beta> < 90" and q: "ql \<le> q" "0 \<le> ql"
    and t: "cos (\<beta> * pi / 180) \<le> ch" "sl \<le> sin (\<beta> * pi / 180)" "0 \<le> sl"
    and n: "ch \<le> ql * sl"
  shows "90 - \<beta> \<le> arctan q * 180 / pi"
proof (rule arctan_deg_ge)
  show "- 90 < 90 - \<beta>" "90 - \<beta> < 90" using b by simp_all
  have "ql * sl \<le> q * sin (\<beta> * pi / 180)" using q t by (intro mult_mono) simp_all
  with t(1) n show "sin ((90 - \<beta>) * pi / 180) \<le> q * cos ((90 - \<beta>) * pi / 180)"
    by (simp only: compl_deg)
qed

lemma arctan_deg_le_compl:
  assumes b: "0 < \<beta>" "\<beta> < 90" and q: "q \<le> qh" "0 \<le> qh"
    and t: "sin (\<beta> * pi / 180) \<le> sh" "cl \<le> cos (\<beta> * pi / 180)"
    and n: "qh * sh \<le> cl"
  shows "arctan q * 180 / pi \<le> 90 - \<beta>"
proof (rule arctan_deg_le)
  show "- 90 < 90 - \<beta>" "90 - \<beta> < 90" using b by simp_all
  have s: "0 \<le> sin (\<beta> * pi / 180)" using b by (rule sin_cos_deg_nonneg)
  have "q * sin (\<beta> * pi / 180) \<le> qh * sh" using q t s by (intro mult_mono) simp_all
  with t(2) n show "q * cos ((90 - \<beta>) * pi / 180) \<le> sin ((90 - \<beta>) * pi / 180)"
    by (simp only: compl_deg)
qed

lemma arctan_deg_ge_neg:
  assumes a: "0 < \<alpha>" "\<alpha> < 90" and q: "ql \<le> q" "ql \<le> 0"
    and t: "cos (\<alpha> * pi / 180) \<le> ch" "sl \<le> sin (\<alpha> * pi / 180)"
    and n: "- ql * ch \<le> sl"
  shows "- \<alpha> \<le> arctan q * 180 / pi"
proof (rule arctan_deg_ge)
  show "- 90 < - \<alpha>" "- \<alpha> < 90" using a by simp_all
  have c: "0 \<le> cos (\<alpha> * pi / 180)" using a by (rule sin_cos_deg_nonneg)
  have "q * cos (\<alpha> * pi / 180) \<ge> ql * cos (\<alpha> * pi / 180)"
    using q(1) c by (rule mult_right_mono)
  moreover have "- ql * cos (\<alpha> * pi / 180) \<le> - ql * ch"
    using t(1) q(2) by (intro mult_left_mono) simp_all
  ultimately have "- sin (\<alpha> * pi / 180) \<le> q * cos (\<alpha> * pi / 180)"
    using n t(2) by simp
  then show "sin (- \<alpha> * pi / 180) \<le> q * cos (- \<alpha> * pi / 180)"
    by (simp only: neg_deg)
qed

lemma arctan_deg_le_neg:
  assumes a: "0 < \<alpha>" "\<alpha> < 90" and q: "q \<le> qh" "qh \<le> 0"
    and t: "sin (\<alpha> * pi / 180) \<le> sh" "cl \<le> cos (\<alpha> * pi / 180)" "0 \<le> cl"
    and n: "sh \<le> - qh * cl"
  shows "arctan q * 180 / pi \<le> - \<alpha>"
proof (rule arctan_deg_le)
  show "- 90 < - \<alpha>" "- \<alpha> < 90" using a by simp_all
  have "- qh * cl \<le> - q * cos (\<alpha> * pi / 180)"
    using q t by (intro mult_mono) simp_all
  then have "q * cos (\<alpha> * pi / 180) \<le> - sin (\<alpha> * pi / 180)"
    using n t(1) by simp
  then show "q * cos (- \<alpha> * pi / 180) \<le> sin (- \<alpha> * pi / 180)"
    by (simp only: neg_deg)
qed

subsection \<open>The known-answer test\<close>

lemma trig_12:
  shows "207911690 / 1000000000 \<le> sin (12 * pi / 180)"
    and "sin (12 * pi / 180) \<le> 207911692 / 1000000000"
    and "978147600 / 1000000000 \<le> cos (12 * pi / 180)"
    and "cos (12 * pi / 180) \<le> 978147601 / 1000000000"
proof -
  have l: "224883961 / 1073741824 \<le> 12 * pi / 180" using pi_lower by simp
  have u: "12 * pi / 180 \<le> 224883963 / 1073741824" using pi_upper by simp
  have z: "0 \<le> 12 * pi / 180" by simp
  have o: "12 * pi / 180 \<le> 1" using u by simp
  show "207911690 / 1000000000 \<le> sin (12 * pi / 180)"
    by (rule sin_ge_frac [where n = 224883961 and D = 1073741824, OF l o]) simp_all
  show "sin (12 * pi / 180) \<le> 207911692 / 1000000000"
    by (rule sin_le_frac [where n = 224883963 and D = 1073741824, OF z u]) simp_all
  show "978147600 / 1000000000 \<le> cos (12 * pi / 180)"
    by (rule cos_ge_frac [where n = 224883963 and D = 1073741824, OF z u]) simp_all
  show "cos (12 * pi / 180) \<le> 978147601 / 1000000000"
    by (rule cos_le_frac [where n = 224883961 and D = 1073741824, OF l o]) simp_all
qed

lemma trig_13:
  shows "224951053 / 1000000000 \<le> sin (13 * pi / 180)"
    and "sin (13 * pi / 180) \<le> 224951056 / 1000000000"
    and "974370064 / 1000000000 \<le> cos (13 * pi / 180)"
    and "cos (13 * pi / 180) \<le> 974370065 / 1000000000"
proof -
  have l: "243624291 / 1073741824 \<le> 13 * pi / 180" using pi_lower by simp
  have u: "13 * pi / 180 \<le> 243624293 / 1073741824" using pi_upper by simp
  have z: "0 \<le> 13 * pi / 180" by simp
  have o: "13 * pi / 180 \<le> 1" using u by simp
  show "224951053 / 1000000000 \<le> sin (13 * pi / 180)"
    by (rule sin_ge_frac [where n = 243624291 and D = 1073741824, OF l o]) simp_all
  show "sin (13 * pi / 180) \<le> 224951056 / 1000000000"
    by (rule sin_le_frac [where n = 243624293 and D = 1073741824, OF z u]) simp_all
  show "974370064 / 1000000000 \<le> cos (13 * pi / 180)"
    by (rule cos_ge_frac [where n = 243624293 and D = 1073741824, OF z u]) simp_all
  show "cos (13 * pi / 180) \<le> 974370065 / 1000000000"
    by (rule cos_le_frac [where n = 243624291 and D = 1073741824, OF l o]) simp_all
qed

lemma trig_20:
  shows "342020142 / 1000000000 \<le> sin (20 * pi / 180)"
    and "sin (20 * pi / 180) \<le> 342020145 / 1000000000"
    and "939692620 / 1000000000 \<le> cos (20 * pi / 180)"
    and "cos (20 * pi / 180) \<le> 939692622 / 1000000000"
proof -
  have l: "374806602 / 1073741824 \<le> 20 * pi / 180" using pi_lower by simp
  have u: "20 * pi / 180 \<le> 374806604 / 1073741824" using pi_upper by simp
  have z: "0 \<le> 20 * pi / 180" by simp
  have o: "20 * pi / 180 \<le> 1" using u by simp
  show "342020142 / 1000000000 \<le> sin (20 * pi / 180)"
    by (rule sin_ge_frac [where n = 374806602 and D = 1073741824, OF l o]) simp_all
  show "sin (20 * pi / 180) \<le> 342020145 / 1000000000"
    by (rule sin_le_frac [where n = 374806604 and D = 1073741824, OF z u]) simp_all
  show "939692620 / 1000000000 \<le> cos (20 * pi / 180)"
    by (rule cos_ge_frac [where n = 374806604 and D = 1073741824, OF z u]) simp_all
  show "cos (20 * pi / 180) \<le> 939692622 / 1000000000"
    by (rule cos_le_frac [where n = 374806602 and D = 1073741824, OF l o]) simp_all
qed

lemma trig_19_75:
  shows "337916716 / 1000000000 \<le> sin (19.75 * pi / 180)"
    and "cos (19.75 * pi / 180) \<le> 941176016 / 1000000000"
proof -
  have l: "370121519 / 1073741824 \<le> 19.75 * pi / 180" using pi_lower by simp
  have u: "19.75 * pi / 180 \<le> 370121522 / 1073741824" using pi_upper by simp
  have z: "0 \<le> 19.75 * pi / 180" by simp
  have o: "19.75 * pi / 180 \<le> 1" using u by simp
  show "337916716 / 1000000000 \<le> sin (19.75 * pi / 180)"
    by (rule sin_ge_frac [where n = 370121519 and D = 1073741824, OF l o]) simp_all
  show "cos (19.75 * pi / 180) \<le> 941176016 / 1000000000"
    by (rule cos_le_frac [where n = 370121519 and D = 1073741824, OF l o]) simp_all
qed

lemma trig_19_65:
  shows "sin (19.65 * pi / 180) \<le> 336273544 / 1000000000"
    and "941764356 / 1000000000 \<le> cos (19.65 * pi / 180)"
proof -
  have l: "368247486 / 1073741824 \<le> 19.65 * pi / 180" using pi_lower by simp
  have u: "19.65 * pi / 180 \<le> 368247489 / 1073741824" using pi_upper by simp
  have z: "0 \<le> 19.65 * pi / 180" by simp
  have o: "19.65 * pi / 180 \<le> 1" using u by simp
  show "sin (19.65 * pi / 180) \<le> 336273544 / 1000000000"
    by (rule sin_le_frac [where n = 368247489 and D = 1073741824, OF z u]) simp_all
  show "941764356 / 1000000000 \<le> cos (19.65 * pi / 180)"
    by (rule cos_ge_frac [where n = 368247489 and D = 1073741824, OF z u]) simp_all
qed

lemma trig_17_85:
  shows "306526077 / 1000000000 \<le> sin (17.85 * pi / 180)"
    and "cos (17.85 * pi / 180) \<le> 951862262 / 1000000000"
proof -
  have l: "334514892 / 1073741824 \<le> 17.85 * pi / 180" using pi_lower by simp
  have u: "17.85 * pi / 180 \<le> 334514894 / 1073741824" using pi_upper by simp
  have z: "0 \<le> 17.85 * pi / 180" by simp
  have o: "17.85 * pi / 180 \<le> 1" using u by simp
  show "306526077 / 1000000000 \<le> sin (17.85 * pi / 180)"
    by (rule sin_ge_frac [where n = 334514892 and D = 1073741824, OF l o]) simp_all
  show "cos (17.85 * pi / 180) \<le> 951862262 / 1000000000"
    by (rule cos_le_frac [where n = 334514892 and D = 1073741824, OF l o]) simp_all
qed

lemma trig_17_75:
  shows "sin (17.75 * pi / 180) \<le> 304864300 / 1000000000"
    and "952395799 / 1000000000 \<le> cos (17.75 * pi / 180)"
proof -
  have l: "332640859 / 1073741824 \<le> 17.75 * pi / 180" using pi_lower by simp
  have u: "17.75 * pi / 180 \<le> 332640861 / 1073741824" using pi_upper by simp
  have z: "0 \<le> 17.75 * pi / 180" by simp
  have o: "17.75 * pi / 180 \<le> 1" using u by simp
  show "sin (17.75 * pi / 180) \<le> 304864300 / 1000000000"
    by (rule sin_le_frac [where n = 332640861 and D = 1073741824, OF z u]) simp_all
  show "952395799 / 1000000000 \<le> cos (17.75 * pi / 180)"
    by (rule cos_ge_frac [where n = 332640861 and D = 1073741824, OF z u]) simp_all
qed

lemma trig_11_75:
  shows "203641750 / 1000000000 \<le> sin (11.75 * pi / 180)"
    and "cos (11.75 * pi / 180) \<le> 979045473 / 1000000000"
proof -
  have l: "220198878 / 1073741824 \<le> 11.75 * pi / 180" using pi_lower by simp
  have u: "11.75 * pi / 180 \<le> 220198880 / 1073741824" using pi_upper by simp
  have z: "0 \<le> 11.75 * pi / 180" by simp
  have o: "11.75 * pi / 180 \<le> 1" using u by simp
  show "203641750 / 1000000000 \<le> sin (11.75 * pi / 180)"
    by (rule sin_ge_frac [where n = 220198878 and D = 1073741824, OF l o]) simp_all
  show "cos (11.75 * pi / 180) \<le> 979045473 / 1000000000"
    by (rule cos_le_frac [where n = 220198878 and D = 1073741824, OF l o]) simp_all
qed

lemma trig_11_65:
  shows "sin (11.65 * pi / 180) \<le> 201932686 / 1000000000"
    and "979399402 / 1000000000 \<le> cos (11.65 * pi / 180)"
proof -
  have l: "218324845 / 1073741824 \<le> 11.65 * pi / 180" using pi_lower by simp
  have u: "11.65 * pi / 180 \<le> 218324847 / 1073741824" using pi_upper by simp
  have z: "0 \<le> 11.65 * pi / 180" by simp
  have o: "11.65 * pi / 180 \<le> 1" using u by simp
  show "sin (11.65 * pi / 180) \<le> 201932686 / 1000000000"
    by (rule sin_le_frac [where n = 218324847 and D = 1073741824, OF z u]) simp_all
  show "979399402 / 1000000000 \<le> cos (11.65 * pi / 180)"
    by (rule cos_ge_frac [where n = 218324847 and D = 1073741824, OF z u]) simp_all
qed

lemma trig_44_85:
  shows "705253158 / 1000000000 \<le> sin (44.85 * pi / 180)"
    and "cos (44.85 * pi / 180) \<le> 708955606 / 1000000000"
proof -
  have l: "840503806 / 1073741824 \<le> 44.85 * pi / 180" using pi_lower by simp
  have u: "44.85 * pi / 180 \<le> 840503810 / 1073741824" using pi_upper by simp
  have z: "0 \<le> 44.85 * pi / 180" by simp
  have o: "44.85 * pi / 180 \<le> 1" using u by simp
  show "705253158 / 1000000000 \<le> sin (44.85 * pi / 180)"
    by (rule sin_ge_frac [where n = 840503806 and D = 1073741824, OF l o]) simp_all
  show "cos (44.85 * pi / 180) \<le> 708955606 / 1000000000"
    by (rule cos_le_frac [where n = 840503806 and D = 1073741824, OF l o]) simp_all
qed

lemma trig_44_75:
  shows "sin (44.75 * pi / 180) \<le> 704014730 / 1000000000"
    and "710185373 / 1000000000 \<le> cos (44.75 * pi / 180)"
proof -
  have l: "838629773 / 1073741824 \<le> 44.75 * pi / 180" using pi_lower by simp
  have u: "44.75 * pi / 180 \<le> 838629777 / 1073741824" using pi_upper by simp
  have z: "0 \<le> 44.75 * pi / 180" by simp
  have o: "44.75 * pi / 180 \<le> 1" using u by simp
  show "sin (44.75 * pi / 180) \<le> 704014730 / 1000000000"
    by (rule sin_le_frac [where n = 838629777 and D = 1073741824, OF z u]) simp_all
  show "710185373 / 1000000000 \<le> cos (44.75 * pi / 180)"
    by (rule cos_ge_frac [where n = 838629777 and D = 1073741824, OF z u]) simp_all
qed

text \<open>
  Claim C1. For the observations (140, 192), (112, 283), (120, 20), \<^verbatim>\<open>calculate\<close> returns
  a true airspeed that rounds to 130, headings within 0.05 of 199.7, 287.8 and 11.7
  degrees, and a wind that blows from a bearing within 0.05 of 314.8 degrees with a
  speed within 0.05 of 20.6.
\<close>

theorem known_answer:
  "\<exists>tas w h1 h2 h3 ws wf.
     calculate [(Fin 140, Fin 192), (Fin 112, Fin 283), (Fin 120, Fin 20)] =
       Inr (Fin tas, w, [Fin h1, Fin h2, Fin h3])
     \<and> wind w = (Fin ws, Fin wf)
     \<and> 129.5 < tas \<and> tas < 130.5
     \<and> \<bar>h1 - 199.7\<bar> \<le> 0.05 \<and> \<bar>h2 - 287.8\<bar> \<le> 0.05 \<and> \<bar>h3 - 11.7\<bar> \<le> 0.05
     \<and> \<bar>wf - 314.8\<bar> \<le> 0.05 \<and> \<bar>ws - 20.6\<bar> \<le> 0.05"
proof -
  define s12 c12 s13 c13 s20 c20 where "s12 = sin (12 * pi / 180)" and "c12 = cos (12 * pi / 180)"
    and "s13 = sin (13 * pi / 180)" and "c13 = cos (13 * pi / 180)"
    and "s20 = sin (20 * pi / 180)" and "c20 = cos (20 * pi / 180)"
  have s12: "s12 \<in> {0.20791169 .. 0.207911692}"
    unfolding s12_def using trig_12(1,2) by simp
  have c12: "c12 \<in> {0.9781476 .. 0.978147601}"
    unfolding c12_def using trig_12(3,4) by simp
  have s13: "s13 \<in> {0.224951053 .. 0.224951056}"
    unfolding s13_def using trig_13(1,2) by simp
  have c13: "c13 \<in> {0.974370064 .. 0.974370065}"
    unfolding c13_def using trig_13(3,4) by simp
  have s20: "s20 \<in> {0.342020142 .. 0.342020145}"
    unfolding s20_def using trig_20(1,2) by simp
  have c20: "c20 \<in> {0.93969262 .. 0.939692622}"
    unfolding c20_def using trig_20(3,4) by simp

  define x1 where "x1 = - 140 * s12"
  have x1: "x1 \<in> {- 29.10763688 .. - 29.1076366}"
    unfolding x1_def by (rule iv_mult [OF iv_const s12]) simp_all
  define y1 where "y1 = - 140 * c12"
  have y1: "y1 \<in> {- 136.94066414 .. - 136.940664}"
    unfolding y1_def by (rule iv_mult [OF iv_const c12]) simp_all
  define x2 where "x2 = - 112 * c13"
  have x2: "x2 \<in> {- 109.12944728 .. - 109.129447168}"
    unfolding x2_def by (rule iv_mult [OF iv_const c13]) simp_all
  define y2 where "y2 = 112 * s13"
  have y2: "y2 \<in> {25.194517936 .. 25.194518272}"
    unfolding y2_def by (rule iv_mult [OF iv_const s13]) simp_all
  define x3 where "x3 = 120 * s20"
  have x3: "x3 \<in> {41.04241704 .. 41.0424174}"
    unfolding x3_def by (rule iv_mult [OF iv_const s20]) simp_all
  define y3 where "y3 = 120 * c20"
  have y3: "y3 \<in> {112.7631144 .. 112.76311464}"
    unfolding y3_def by (rule iv_mult [OF iv_const c20]) simp_all
  define a where "a = x1 - x2"
  have a: "a \<in> {80.021810288 .. 80.02181068}"
    unfolding a_def by (rule iv_sub [OF x1 x2]) simp_all
  define b where "b = y1 - y2"
  have b: "b \<in> {- 162.135182412 .. - 162.135181936}"
    unfolding b_def by (rule iv_sub [OF y1 y2]) simp_all
  define c where "c = x1 - x3"
  have c: "c \<in> {- 70.15005428 .. - 70.15005364}"
    unfolding c_def by (rule iv_sub [OF x1 x3]) simp_all
  define d where "d = y1 - y3"
  have d: "d \<in> {- 249.70377878 .. - 249.7037784}"
    unfolding d_def by (rule iv_sub [OF y1 y3]) simp_all
  define ad where "ad = a * d"
  have ad: "ad \<in> {- 19981.748511614 .. - 19981.748383321}"
    unfolding ad_def by (rule iv_mult [OF a d]) simp_all
  define bc where "bc = b * c"
  have bc: "bc \<in> {11373.791709741 .. 11373.7918469}"
    unfolding bc_def by (rule iv_mult [OF b c]) simp_all
  define na where "na = - a"
  have na: "na \<in> {- 80.02181068 .. - 80.021810288}"
    unfolding na_def by (rule iv_neg [OF a]) simp_all
  define mq1 where "mq1 = na / b"
  have mq1: "mq1 \<in> {0.493549944 .. 0.493549949}"
    unfolding mq1_def by (rule iv_div [OF na b]) simp_all
  define nc where "nc = - c"
  have nc: "nc \<in> {70.15005364 .. 70.15005428}"
    unfolding nc_def by (rule iv_neg [OF c]) simp_all
  define mq2 where "mq2 = nc / d"
  have mq2: "mq2 \<in> {- 0.280933091 .. - 0.280933087}"
    unfolding mq2_def by (rule iv_div [OF nc d]) simp_all
  define t1 where "t1 = mq1 * a"
  have t1: "t1 \<in> {39.494759986 .. 39.494760581}"
    unfolding t1_def by (rule iv_mult [OF mq1 a]) simp_all
  define e1 where "e1 = b - t1"
  have e1: "e1 \<in> {- 201.629942993 .. - 201.629941922}"
    unfolding e1_def by (rule iv_sub [OF b t1]) simp_all
  define bq1 where "bq1 = e1 / 2"
  have bq1: "bq1 \<in> {- 100.814971497 .. - 100.814970961}"
    unfolding bq1_def by (rule iv_div [OF e1 iv_const]) simp_all
  define t2 where "t2 = mq2 * c"
  have t2: "t2 \<in> {19.707471122 .. 19.707471583}"
    unfolding t2_def by (rule iv_mult [OF mq2 c]) simp_all
  define e2 where "e2 = d - t2"
  have e2: "e2 \<in> {- 269.411250363 .. - 269.411249522}"
    unfolding e2_def by (rule iv_sub [OF d t2]) simp_all
  define bq2 where "bq2 = e2 / 2"
  have bq2: "bq2 \<in> {- 134.705625182 .. - 134.705624761}"
    unfolding bq2_def by (rule iv_div [OF e2 iv_const]) simp_all
  define nu where "nu = bq2 - bq1"
  have nu: "nu \<in> {- 33.890654221 .. - 33.890653264}"
    unfolding nu_def by (rule iv_sub [OF bq2 bq1]) simp_all
  define de where "de = mq1 - mq2"
  have de: "de \<in> {0.774483031 .. 0.77448304}"
    unfolding de_def by (rule iv_sub [OF mq1 mq2]) simp_all
  define u where "u = nu / de"
  have u: "u \<in> {- 43.759066196 .. - 43.759064451}"
    unfolding u_def by (rule iv_div [OF nu de]) simp_all
  define t3 where "t3 = mq1 * u"
  have t3: "t3 \<in> {- 21.59728489 .. - 21.597283809}"
    unfolding t3_def by (rule iv_mult [OF mq1 u]) simp_all
  define v where "v = t3 + bq1"
  have v: "v \<in> {- 122.412256387 .. - 122.41225477}"
    unfolding v_def by (rule iv_add [OF t3 bq1]) simp_all
  define uu where "uu = u * u"
  have uu: "uu \<in> {1914.855721626 .. 1914.855874346}"
    unfolding uu_def by (rule iv_mult [OF u u]) simp_all
  define vv where "vv = v * v"
  have vv: "vv \<in> {14984.760117875 .. 14984.760513757}"
    unfolding vv_def by (rule iv_mult [OF v v]) simp_all
  define tas2 where "tas2 = uu + vv"
  have tas2: "tas2 \<in> {16899.615839501 .. 16899.616388103}"
    unfolding tas2_def by (rule iv_add [OF uu vv]) simp_all
  define tas where "tas = sqrt tas2"
  have tas: "tas \<in> {129.998522 .. 129.998525}"
    unfolding tas_def by (rule iv_sqrt [OF tas2]) simp_all
  define q1 where "q1 = v / u"
  have q1: "q1 \<in> {2.797414693 .. 2.797414843}"
    unfolding q1_def by (rule iv_div [OF v u]) simp_all
  define a2x where "a2x = u - a"
  have a2x: "a2x \<in> {- 123.780876876 .. - 123.780874739}"
    unfolding a2x_def by (rule iv_sub [OF u a]) simp_all
  define a2y where "a2y = v - b"
  have a2y: "a2y \<in> {39.722925549 .. 39.722927642}"
    unfolding a2y_def by (rule iv_sub [OF v b]) simp_all
  define q2 where "q2 = a2y / a2x"
  have q2: "q2 \<in> {- 0.32091329 .. - 0.320913266}"
    unfolding q2_def by (rule iv_div [OF a2y a2x]) simp_all
  define a3x where "a3x = u - c"
  have a3x: "a3x \<in> {26.390987444 .. 26.390989829}"
    unfolding a3x_def by (rule iv_sub [OF u c]) simp_all
  define a3y where "a3y = v - d"
  have a3y: "a3y \<in> {127.291522013 .. 127.29152401}"
    unfolding a3y_def by (rule iv_sub [OF v d]) simp_all
  define q3 where "q3 = a3y / a3x"
  have q3: "q3 \<in> {4.823294724 .. 4.823295236}"
    unfolding q3_def by (rule iv_div [OF a3y a3x]) simp_all
  define nwx where "nwx = u - x1"
  have nwx: "nwx \<in> {- 14.651429596 .. - 14.651427571}"
    unfolding nwx_def by (rule iv_sub [OF u x1]) simp_all
  define nwy where "nwy = v - y1"
  have nwy: "nwy \<in> {14.528407613 .. 14.52840937}"
    unfolding nwy_def by (rule iv_sub [OF v y1]) simp_all
  define qw where "qw = nwy / nwx"
  have qw: "qw \<in> {- 0.991603672 .. - 0.991603414}"
    unfolding qw_def by (rule iv_div [OF nwy nwx]) simp_all
  define wxx where "wxx = nwx * nwx"
  have wxx: "wxx \<in> {214.664329868 .. 214.664389207}"
    unfolding wxx_def by (rule iv_mult [OF nwx nwx]) simp_all
  define wyy where "wyy = nwy * nwy"
  have wyy: "wyy \<in> {211.074627769 .. 211.074678823}"
    unfolding wyy_def by (rule iv_mult [OF nwy nwy]) simp_all
  define ws2 where "ws2 = wxx + wyy"
  have ws2: "ws2 \<in> {425.738957637 .. 425.73906803}"
    unfolding ws2_def by (rule iv_add [OF wxx wyy]) simp_all
  define ws where "ws = sqrt ws2"
  have ws: "ws \<in> {20.633442 .. 20.633446}"
    unfolding ws_def by (rule iv_sqrt [OF ws2]) simp_all

  have g1: "fromCompass (Fin 140) (Fin 192) = (Fin x1, Fin y1)"
  proof -
    have "192 * pi / 180 = 12 * pi / 180 + pi" by simp
    then have "sin (192 * pi / 180) = - s12" "cos (192 * pi / 180) = - c12"
      by (simp_all only: sin_periodic_pi cos_periodic_pi s12_def c12_def)
    then show ?thesis by (simp add: fromCompass_sin_cos x1_def y1_def)
  qed
  have g2: "fromCompass (Fin 112) (Fin 283) = (Fin x2, Fin y2)"
  proof -
    have "283 * pi / 180 = 13 * pi / 180 + 3 / 2 * pi" by simp
    then have "sin (283 * pi / 180) = - c13" "cos (283 * pi / 180) = s13"
      by (simp_all only: sin_add cos_add sin_3over2_pi cos_3over2_pi s13_def c13_def)
    then show ?thesis by (simp add: fromCompass_sin_cos x2_def y2_def)
  qed
  have g3: "fromCompass (Fin 120) (Fin 20) = (Fin x3, Fin y3)"
    by (simp add: fromCompass_sin_cos x3_def y3_def s20_def c20_def)

  have nz: "y1 \<noteq> y2" "y1 \<noteq> y3" using b d by (auto simp add: b_def d_def)
  have det0: "a * d \<noteq> b * c" using ad bc by (auto simp add: ad_def bc_def)
  have det: "(x1 - x2) * (y1 - y3) \<noteq> (y1 - y2) * (x1 - x3)"
    using det0 unfolding a_def b_def c_def d_def .
  from calculate_run [OF g1 g2 g3 nz det] obtain u' v' where
    run: "calculate [(Fin 140, Fin 192), (Fin 112, Fin 283), (Fin 120, Fin 20)] =
       Inr (Fin (sqrt (u'\<^sup>2 + v'\<^sup>2)), (Fin (x1 - u'), Fin (y1 - v')),
            [snd (toCompass (Fin u', Fin v')),
             snd (toCompass (Fin (u' - (x1 - x2)), Fin (v' - (y1 - y2)))),
             snd (toCompass (Fin (u' - (x1 - x3)), Fin (v' - (y1 - y3))))])"
    and cen: "center (x1 - x2) (y1 - y2) (x1 - x3) (y1 - y3) = (u', v')"
    by metis
  have "center (x1 - x2) (y1 - y2) (x1 - x3) (y1 - y3) = (u, v)"
    by (simp only: center_def Let_def u_def v_def t3_def nu_def de_def bq1_def bq2_def e1_def
        e2_def t1_def t2_def mq1_def mq2_def na_def nc_def a_def b_def c_def d_def)
  with cen have uv: "u' = u" "v' = v" by simp_all

  have T: "sqrt (u\<^sup>2 + v\<^sup>2) = tas"
    by (simp only: tas_def tas2_def uu_def vv_def power2_eq_square)
  have H1: "snd (toCompass (Fin u, Fin v)) = Fin (270 - arctan q1 * 180 / pi)"
    unfolding q1_def using u by (intro heading_west) simp
  have H2: "snd (toCompass (Fin (u - (x1 - x2)), Fin (v - (y1 - y2)))) =
      Fin (270 - arctan q2 * 180 / pi)"
    unfolding q2_def a2x_def a2y_def a_def b_def
    using a2x by (intro heading_west) (simp add: a2x_def a_def)
  have H3: "snd (toCompass (Fin (u - (x1 - x3)), Fin (v - (y1 - y3)))) =
      Fin (90 - arctan q3 * 180 / pi)"
    unfolding q3_def a3x_def a3y_def c_def d_def
    using a3x by (intro heading_east) (simp add: a3x_def c_def)
  have "x1 - u \<noteq> 0" "y1 - v \<noteq> 0"
    using nwx nwy by (auto simp add: nwx_def nwy_def)
  then have N: "negative (Fin (x1 - u), Fin (y1 - v)) = (Fin nwx, Fin nwy)"
    by (simp add: negative_def nwx_def nwy_def)
  have "fst (toCompass (Fin nwx, Fin nwy)) = Fin ws"
    by (simp add: toCompass_Fin ws_def ws2_def wxx_def wyy_def power2_eq_square)
  moreover have "snd (toCompass (Fin nwx, Fin nwy)) = Fin (270 - arctan qw * 180 / pi)"
    unfolding qw_def using nwx by (intro heading_west) simp
  ultimately have W: "wind (Fin (x1 - u), Fin (y1 - v)) =
      (Fin ws, Fin (270 - arctan qw * 180 / pi))"
    unfolding wind_def N by (simp add: prod_eq_iff)

  have q1b: "2.797414693 \<le> q1" "q1 \<le> 2.797414843"
    using q1 by simp_all
  have q2b: "- 0.32091329 \<le> q2" "q2 \<le> - 0.320913266"
    using q2 by simp_all
  have q3b: "4.823294724 \<le> q3" "q3 \<le> 4.823295236"
    using q3 by simp_all
  have qwb: "- 0.991603672 \<le> qw" "qw \<le> - 0.991603414"
    using qw by simp_all
  define A1 where "A1 = arctan q1 * 180 / pi"
  have A1l: "90 - 19.75 \<le> A1"
    unfolding A1_def
    by (rule arctan_deg_ge_compl [OF _ _ q1b(1) _ trig_19_75(2) trig_19_75(1)]) simp_all
  have A1u: "A1 \<le> 90 - 19.65"
    unfolding A1_def
    by (rule arctan_deg_le_compl [OF _ _ q1b(2) _ trig_19_65(1) trig_19_65(2)]) simp_all
  define A2 where "A2 = arctan q2 * 180 / pi"
  have A2l: "- 17.85 \<le> A2"
    unfolding A2_def
    by (rule arctan_deg_ge_neg [OF _ _ q2b(1) _ trig_17_85(2) trig_17_85(1)]) simp_all
  have A2u: "A2 \<le> - 17.75"
    unfolding A2_def
    by (rule arctan_deg_le_neg [OF _ _ q2b(2) _ trig_17_75(1) trig_17_75(2)]) simp_all
  define A3 where "A3 = arctan q3 * 180 / pi"
  have A3l: "90 - 11.75 \<le> A3"
    unfolding A3_def
    by (rule arctan_deg_ge_compl [OF _ _ q3b(1) _ trig_11_75(2) trig_11_75(1)]) simp_all
  have A3u: "A3 \<le> 90 - 11.65"
    unfolding A3_def
    by (rule arctan_deg_le_compl [OF _ _ q3b(2) _ trig_11_65(1) trig_11_65(2)]) simp_all
  define Aw where "Aw = arctan qw * 180 / pi"
  have Awl: "- 44.85 \<le> Aw"
    unfolding Aw_def
    by (rule arctan_deg_ge_neg [OF _ _ qwb(1) _ trig_44_85(2) trig_44_85(1)]) simp_all
  have Awu: "Aw \<le> - 44.75"
    unfolding Aw_def
    by (rule arctan_deg_le_neg [OF _ _ qwb(2) _ trig_44_75(1) trig_44_75(2)]) simp_all

  have R: "calculate [(Fin 140, Fin 192), (Fin 112, Fin 283), (Fin 120, Fin 20)] =
       Inr (Fin tas, (Fin (x1 - u), Fin (y1 - v)), [Fin (270 - A1), Fin (270 - A2), Fin (90 - A3)])"
    unfolding run uv T H1 H2 H3 A1_def A2_def A3_def ..
  have W': "wind (Fin (x1 - u), Fin (y1 - v)) = (Fin ws, Fin (270 - Aw))"
    unfolding W Aw_def ..
  have b1: "129.5 < tas" "tas < 130.5" using tas by simp_all
  have b2: "\<bar>(270 - A1) - 199.7\<bar> \<le> 0.05" using A1l A1u unfolding abs_le_iff by simp
  have b3: "\<bar>(270 - A2) - 287.8\<bar> \<le> 0.05" using A2l A2u unfolding abs_le_iff by simp
  have b4: "\<bar>(90 - A3) - 11.7\<bar> \<le> 0.05" using A3l A3u unfolding abs_le_iff by simp
  have b5: "\<bar>(270 - Aw) - 314.8\<bar> \<le> 0.05" using Awl Awu unfolding abs_le_iff by simp
  have b6: "\<bar>ws - 20.6\<bar> \<le> 0.05" using ws unfolding abs_le_iff by simp
  from R W' b1 b2 b3 b4 b5 b6 show ?thesis by blast
qed

end
